theory Spec2Isabelle
  imports Complex_Main "HOL-Library.AList" "HOL-Library.Char_ord" "HOL-Library.List_Lexorder"
begin

section \<open>Values, floats and errors\<close>

text \<open>
  The cells of a pandas table, as far as \<^verbatim>\<open>indicators.py\<close> tells them apart:
  the three scalars that \<^verbatim>\<open>pd.isna\<close> reports as missing (Python's
  \<^verbatim>\<open>None\<close>, the float \<^verbatim>\<open>nan\<close>, and \<^verbatim>\<open>pd.NA\<close>), a finite
  number, an object that \<^verbatim>\<open>float()\<close> rejects (a non-numeric string, say), and
  the two vector-like classes the code tests for with \<^verbatim>\<open>isinstance\<close>:
  \<^verbatim>\<open>pd.Series\<close> and \<^verbatim>\<open>pd.Index\<close>. Finite floats are idealised as reals:
  rounding, overflow and infinities are outside the model.
\<close>

datatype pyval =
    PyNone
  | NaN
  | PdNA
  | Num real
  | Obj
  | Series "pyval list"
  | Index "pyval list"

text \<open>A Python float: a finite number or \<^verbatim>\<open>nan\<close>.\<close>

datatype pyfloat = Fin real | FNaN

datatype error = TypeError | ValueError | KeyError | IndexError | ZeroDivisionError | DataError

text \<open>
  What \<^verbatim>\<open>pd.isna\<close> returns: a plain bool for a scalar, a boolean Series for a
  Series, and a boolean numpy array (not an Index) for an Index.
\<close>

datatype isna_result = IsnaBool bool | IsnaSeries "bool list" | IsnaArray "bool list"

text \<open>The element-wise test behind \<^verbatim>\<open>pd.isna\<close>: a nested container is not missing.\<close>

fun checknull :: "pyval \<Rightarrow> bool" where
  "checknull PyNone = True"
| "checknull NaN = True"
| "checknull PdNA = True"
| "checknull _ = False"

fun pd_isna :: "pyval \<Rightarrow> isna_result" where
  "pd_isna (Series xs) = IsnaSeries (map checknull xs)"
| "pd_isna (Index xs) = IsnaArray (map checknull xs)"
| "pd_isna v = IsnaBool (checknull v)"

text \<open>
  \<^verbatim>\<open>bool(a)\<close> for a numpy array \<^verbatim>\<open>a\<close>: the element of a one-element array,
  \<^verbatim>\<open>False\<close> (with a deprecation warning) for an empty one, and a
  \<^verbatim>\<open>ValueError\<close> ("truth value of an array with more than one element is
  ambiguous") otherwise.
\<close>

fun bool_of_array :: "bool list \<Rightarrow> error + bool" where
  "bool_of_array [] = Inr False"
| "bool_of_array [b] = Inr b"
| "bool_of_array _ = Inl ValueError"

text \<open>
  \<^verbatim>\<open>float(x)\<close>. A one-element Series converts its element (pandas 2.x, the line
  this program runs on: \<^verbatim>\<open>app.py\<close> calls \<^verbatim>\<open>Styler.applymap\<close>); any other
  Series, and every Index, raises \<^verbatim>\<open>TypeError\<close>.
\<close>

fun py_float :: "pyval \<Rightarrow> error + pyfloat" where
  "py_float (Num r) = Inr (Fin r)"
| "py_float NaN = Inr FNaN"
| "py_float PyNone = Inl TypeError"
| "py_float PdNA = Inl TypeError"
| "py_float Obj = Inl ValueError"
| "py_float (Series [x]) = py_float x"
| "py_float (Series _) = Inl TypeError"
| "py_float (Index _) = Inl TypeError"

text \<open>Float comparison and arithmetic: \<^verbatim>\<open>nan\<close> compares false and propagates.\<close>

fun float_gt :: "pyfloat \<Rightarrow> pyfloat \<Rightarrow> bool" where
  "float_gt (Fin a) (Fin b) = (a > b)"
| "float_gt _ _ = False"

fun float_is_zero :: "pyfloat \<Rightarrow> bool" where
  "float_is_zero (Fin a) = (a = 0)"
| "float_is_zero FNaN = False"

fun float_div :: "pyfloat \<Rightarrow> pyfloat \<Rightarrow> error + pyfloat" where
  "float_div (Fin a) (Fin b) = (if b = 0 then Inl ZeroDivisionError else Inr (Fin (a / b)))"
| "float_div FNaN (Fin b) = (if b = 0 then Inl ZeroDivisionError else Inr FNaN)"
| "float_div _ FNaN = Inr FNaN"

fun float_sub :: "pyfloat \<Rightarrow> pyfloat \<Rightarrow> pyfloat" where
  "float_sub (Fin a) (Fin b) = Fin (a - b)"
| "float_sub _ _ = FNaN"

fun float_mul :: "pyfloat \<Rightarrow> pyfloat \<Rightarrow> pyfloat" where
  "float_mul (Fin a) (Fin b) = Fin (a * b)"
| "float_mul _ _ = FNaN"

section \<open>Scalar coercion (\<^verbatim>\<open>indicators.py\<close>)\<close>

text \<open>
  \<^verbatim>\<open>_is_na_scalar\<close>: the \<^verbatim>\<open>isinstance(result, (pd.Series, pd.Index))\<close> branch
  takes \<^verbatim>\<open>result.all()\<close>; everything else goes through \<^verbatim>\<open>bool(result)\<close>.
  (Isabelle names cannot start with an underscore, so the leading underscore is dropped.)
\<close>

definition is_na_scalar :: "pyval \<Rightarrow> error + bool" where
  "is_na_scalar v =
     (case pd_isna v of
        IsnaSeries bs \<Rightarrow> Inr (list_all (\<lambda>b. b) bs)
      | IsnaBool b \<Rightarrow> Inr b
      | IsnaArray bs \<Rightarrow> bool_of_array bs)"

text \<open>\<^verbatim>\<open>try: return float(x) except (TypeError, ValueError): return None\<close>\<close>

definition try_float :: "pyval \<Rightarrow> error + pyfloat option" where
  "try_float x =
     (case py_float x of
        Inr f \<Rightarrow> Inr (Some f)
      | Inl e \<Rightarrow> if e = TypeError \<or> e = ValueError then Inr None else Inl e)"

text \<open>The items of a vector-like value; \<open>None\<close> for anything that is not one.\<close>

fun items :: "pyval \<Rightarrow> pyval list option" where
  "items (Series xs) = Some xs"
| "items (Index xs) = Some xs"
| "items _ = None"

text \<open>
  \<^verbatim>\<open>_to_scalar\<close>. \<open>Inr None\<close> is the missing marker (Python's \<^verbatim>\<open>None\<close>);
  an exception that the function does not catch is \<open>Inl\<close>.
\<close>

definition to_scalar :: "pyval \<Rightarrow> error + pyfloat option" where
  "to_scalar v =
     (case is_na_scalar v of
        Inl e \<Rightarrow> Inl e
      | Inr True \<Rightarrow> Inr None
      | Inr False \<Rightarrow>
          (case items v of
             Some xs \<Rightarrow>
               if length xs = 0 then Inr None
               else
                 (let scalar = last xs in
                  case is_na_scalar scalar of
                    Inl e \<Rightarrow> Inl e
                  | Inr True \<Rightarrow> Inr None
                  | Inr False \<Rightarrow> try_float scalar)
           | None \<Rightarrow> try_float v))"


subsection \<open>Facts about scalar coercion\<close>

lemma is_na_scalar_scalar: "items v = None \<Longrightarrow> is_na_scalar v = Inr (checknull v)"
  by (cases v) (simp_all add: is_na_scalar_def)

lemma try_float_scalar: "items v = None \<Longrightarrow> \<exists>r. try_float v = Inr r"
  by (cases v) (simp_all add: try_float_def)

lemma py_float_error: "py_float v = Inl e \<Longrightarrow> e = TypeError \<or> e = ValueError"
  by (induction v arbitrary: e rule: py_float.induct) simp_all

lemma try_float_total: "\<exists>r. try_float v = Inr r"
  unfolding try_float_def using py_float_error [of v]
  by (cases "py_float v") auto

lemma to_scalar_missing: "checknull v \<Longrightarrow> to_scalar v = Inr None"
  by (cases v) (simp_all add: to_scalar_def is_na_scalar_def)

lemma to_scalar_Num: "to_scalar (Num r) = Inr (Some (Fin r))"
  by (simp add: to_scalar_def is_na_scalar_def try_float_def)

lemma to_scalar_Obj: "to_scalar Obj = Inr None"
  by (simp add: to_scalar_def is_na_scalar_def try_float_def)

lemma to_scalar_empty: "to_scalar (Series []) = Inr None" "to_scalar (Index []) = Inr None"
  by (simp_all add: to_scalar_def is_na_scalar_def)

lemma to_scalar_one_element:
  "to_scalar (Series [Num r]) = Inr (Some (Fin r))"
  "to_scalar (Index [Num r]) = Inr (Some (Fin r))"
  by (simp_all add: to_scalar_def is_na_scalar_def try_float_def)

lemma to_scalar_scalar_total: "items v = None \<Longrightarrow> \<exists>r. to_scalar v = Inr r"
  using try_float_total [of v]
  by (cases "checknull v") (auto simp: to_scalar_def is_na_scalar_scalar)

text \<open>
  Nor does the coercion of a Series raise, unless its last element is an Index of two
  or more elements.
\<close>

lemma is_na_scalar_total:
  "(\<forall>ys. v = Index ys \<longrightarrow> length ys \<le> 1) \<Longrightarrow> \<exists>b. is_na_scalar v = Inr b"
proof (cases v)
  case (Index ys)
  assume "\<forall>ys. v = Index ys \<longrightarrow> length ys \<le> 1"
  with Index have "length ys \<le> 1" by simp
  then have "ys = [] \<or> (\<exists>y. ys = [y])"
    by (cases ys) auto
  with Index show ?thesis by (auto simp: is_na_scalar_def)
qed (auto simp: is_na_scalar_def)

lemma to_scalar_Series_total:
  assumes "\<forall>ys. last xs = Index ys \<longrightarrow> length ys \<le> 1"
  shows "\<exists>r. to_scalar (Series xs) = Inr r"
proof -
  have outer: "is_na_scalar (Series xs) = Inr (list_all checknull xs)"
    by (simp add: is_na_scalar_def list.pred_map comp_def)
  from is_na_scalar_total [OF assms] obtain b where b: "is_na_scalar (last xs) = Inr b"
    by blast
  from try_float_total obtain r where r: "try_float (last xs) = Inr r"
    by blast
  show ?thesis
    by (simp add: to_scalar_def outer b r Let_def split: bool.splits)
qed

text \<open>
  C3. The specification asks that scalar coercion never raises, whatever the input, and
  the docstring of \<^verbatim>\<open>_is_na_scalar\<close> promises a single boolean for a Series or an
  Index "without raising". For an Index of two numbers \<^verbatim>\<open>pd.isna\<close> returns a numpy
  array, the \<^verbatim>\<open>isinstance\<close> test for Series/Index fails on it, and
  \<^verbatim>\<open>bool(result)\<close> raises \<^verbatim>\<open>ValueError\<close> outside every \<^verbatim>\<open>try\<close>:
  \<^verbatim>\<open>_to_scalar(pd.Index([1.0, 2.0]))\<close> raises instead of returning \<^verbatim>\<open>2.0\<close>.
\<close>

theorem to_scalar_index_raises: "to_scalar (Index [Num 1, Num 2]) = Inl ValueError"
  by (simp add: to_scalar_def is_na_scalar_def)

text \<open>
  C7, as stated: the coercion of a sequence would equal the coercion of its last element
  also when that element is a sequence. The code does not recurse: it hands the last
  element to \<^verbatim>\<open>float()\<close>, which rejects a Series of two numbers, so the outer
  coercion is missing although the last element coerces to \<open>2\<close>.
\<close>

theorem to_scalar_nested_counterexample:
  "to_scalar (Series [Series [Num 1, Num 2]]) = Inr None
   \<and> to_scalar (last [Series [Num 1, Num 2]]) = Inr (Some (Fin 2))"
  by (simp add: to_scalar_def is_na_scalar_def try_float_def)

text \<open>
  C7, amended: for a non-empty Series, and for a one-element Index, whose last element is
  not itself a Series or an Index, the coercion of the sequence equals the coercion of its
  last element.
\<close>

theorem to_scalar_last_element:
  assumes "v = Series xs \<or> (v = Index xs \<and> length xs = 1)"
    and "xs \<noteq> []"
    and "items (last xs) = None"
  shows "to_scalar v = to_scalar (last xs)"
proof -
  have na_last: "is_na_scalar (last xs) = Inr (checknull (last xs))"
    using assms(3) by (rule is_na_scalar_scalar)
  have inner: "to_scalar (last xs) = (if checknull (last xs) then Inr None else try_float (last xs))"
    using assms(3) by (simp add: to_scalar_def na_last)
  from assms(1) show ?thesis
  proof
    assume v: "v = Series xs"
    have outer: "to_scalar (Series xs) =
        (if list_all checknull xs \<or> checknull (last xs) then Inr None else try_float (last xs))"
    proof -
      have "is_na_scalar (Series xs) = Inr (list_all checknull xs)"
        by (simp add: is_na_scalar_def list.pred_map comp_def)
      then show ?thesis
        using assms(2) by (simp add: to_scalar_def na_last Let_def split: bool.splits)
    qed
    have "list_all checknull xs \<Longrightarrow> checknull (last xs)"
      using assms(2) by (simp add: list_all_iff)
    then show ?thesis
      unfolding v outer inner by auto
  next
    assume "v = Index xs \<and> length xs = 1"
    then obtain x where v: "v = Index [x]" and xs: "xs = [x]"
      by (cases xs) auto
    have outer: "to_scalar (Index [x]) = (if checknull x then Inr None else try_float x)"
    proof -
      have "is_na_scalar (Index [x]) = Inr (checknull x)"
        by (simp add: is_na_scalar_def)
      then show ?thesis
        using na_last by (simp add: to_scalar_def xs Let_def split: bool.splits)
    qed
    show ?thesis
      using inner unfolding v outer xs by simp
  qed
qed

theorem to_scalar_last_element_witness:
  "to_scalar (Series [Num 1, Obj, Num 7]) = to_scalar (last [Num 1, Obj, Num 7])
   \<and> to_scalar (last [Num 1, Obj, Num 7]) = Inr (Some (Fin 7))"
  using to_scalar_last_element [of "Series [Num 1, Obj, Num 7]" "[Num 1, Obj, Num 7]"]
  by (simp add: to_scalar_Num)

section \<open>Column names\<close>

text \<open>
  \<^verbatim>\<open>f"SMA_{window}"\<close>: Python's \<^verbatim>\<open>str\<close> of an integer is its decimal numeral,
  with a leading minus sign for a negative one.
\<close>

definition digit_char :: "nat \<Rightarrow> char" where
  "digit_char n = ''0123456789'' ! n"

fun str_nat :: "nat \<Rightarrow> string" where
  "str_nat n = (if n < 10 then [digit_char n] else str_nat (n div 10) @ [digit_char (n mod 10)])"

definition str_int :: "int \<Rightarrow> string" where
  "str_int i = (if i < 0 then CHR ''-'' # str_nat (nat (- i)) else str_nat (nat i))"

definition sma_col :: "int \<Rightarrow> string" where
  "sma_col window = ''SMA_'' @ str_int window"

subsection \<open>Different windows name different columns\<close>

declare str_nat.simps [simp del]

lemma digit_char_inj: "m < 10 \<Longrightarrow> n < 10 \<Longrightarrow> digit_char m = digit_char n \<longleftrightarrow> m = n"
  unfolding digit_char_def by (subst nth_eq_iff_index_eq) simp_all

lemma digit_char_not_minus: "n < 10 \<Longrightarrow> digit_char n \<noteq> CHR ''-''"
proof -
  assume "n < 10"
  then have "digit_char n \<in> set ''0123456789''"
    unfolding digit_char_def by (intro nth_mem) simp
  then show ?thesis by auto
qed

lemma str_nat_not_Nil: "str_nat n \<noteq> []"
  by (subst str_nat.simps) simp

lemma str_nat_length: "10 \<le> n \<Longrightarrow> 2 \<le> length (str_nat n)"
  using str_nat_not_Nil [of "n div 10"]
  by (subst str_nat.simps) (cases "str_nat (n div 10)"; simp)

lemma str_nat_inj: "str_nat m = str_nat n \<Longrightarrow> m = n"
proof (induction m arbitrary: n rule: str_nat.induct)
  case (1 m)
  show ?case
  proof (cases "m < 10")
    case small_m: True
    then have m1: "length (str_nat m) = 1" by (subst str_nat.simps) simp
    have "n < 10"
    proof (rule ccontr)
      assume "\<not> n < 10"
      then have "2 \<le> length (str_nat n)" by (simp add: str_nat_length)
      with m1 "1.prems" show False by simp
    qed
    with small_m "1.prems" show ?thesis
      by (simp add: str_nat.simps [of m] str_nat.simps [of n] digit_char_inj)
  next
    case big_m: False
    have big_n: "\<not> n < 10"
    proof
      assume "n < 10"
      then have "length (str_nat n) = 1" by (subst str_nat.simps) simp
      moreover from big_m have "2 \<le> length (str_nat m)" by (simp add: str_nat_length)
      ultimately show False using "1.prems" by simp
    qed
    from "1.prems" big_m big_n
    have eq: "str_nat (m div 10) @ [digit_char (m mod 10)] = str_nat (n div 10) @ [digit_char (n mod 10)]"
      by (simp add: str_nat.simps [of m] str_nat.simps [of n])
    then have "str_nat (m div 10) = str_nat (n div 10)" and d: "digit_char (m mod 10) = digit_char (n mod 10)"
      by simp_all
    then have "m div 10 = n div 10" using "1.IH" big_m by simp
    moreover from d have "m mod 10 = n mod 10" by (simp add: digit_char_inj)
    ultimately show ?thesis by (metis div_mult_mod_eq)
  qed
qed

lemma str_nat_hd: "hd (str_nat n) \<noteq> CHR ''-''"
proof (induction n rule: str_nat.induct)
  case (1 n)
  show ?case
  proof (cases "n < 10")
    case True
    then show ?thesis by (subst str_nat.simps) (simp add: digit_char_not_minus)
  next
    case False
    with 1 show ?thesis
      by (subst str_nat.simps) (simp add: str_nat_not_Nil)
  qed
qed

lemma str_int_inj: "str_int i = str_int j \<Longrightarrow> i = j"
proof -
  assume eq: "str_int i = str_int j"
  have neg: "CHR ''-'' # str_nat a \<noteq> str_nat b" for a b
    using str_nat_hd [of b] by (metis list.sel(1))
  show ?thesis
  proof (cases "i < 0"; cases "j < 0")
    assume "i < 0" "j < 0"
    with eq have "nat (- i) = nat (- j)" by (simp add: str_int_def str_nat_inj)
    with \<open>i < 0\<close> \<open>j < 0\<close> show ?thesis by simp
  next
    assume "i < 0" "\<not> j < 0"
    with eq neg show ?thesis by (simp add: str_int_def)
  next
    assume "\<not> i < 0" "j < 0"
    with eq neg [of "nat (- j)" "nat i"] show ?thesis by (simp add: str_int_def)
  next
    assume "\<not> i < 0" "\<not> j < 0"
    with eq have "nat i = nat j" by (simp add: str_int_def str_nat_inj)
    with \<open>\<not> i < 0\<close> \<open>\<not> j < 0\<close> show ?thesis by simp
  qed
qed

lemma sma_col_inj: "sma_col v = sma_col w \<longleftrightarrow> v = w"
  by (auto simp: sma_col_def dest: str_int_inj)

section \<open>Price tables and moving averages (\<^verbatim>\<open>indicators.py\<close>)\<close>

text \<open>
  A DataFrame: the length of its index and its columns in order, each a name and its
  cells. \<^verbatim>\<open>df.empty\<close> holds when either axis has length zero; \<^verbatim>\<open>df.get(c)\<close>
  is the column or \<^verbatim>\<open>None\<close>; \<^verbatim>\<open>df[c] = xs\<close> replaces the column in place or
  appends it. In a well-formed frame every column has one cell per index entry.
\<close>

record dataframe =
  nrows :: nat
  columns :: "(string \<times> pyval list) list"

definition df_empty :: "dataframe \<Rightarrow> bool" where
  "df_empty df \<longleftrightarrow> nrows df = 0 \<or> columns df = []"

definition df_get :: "dataframe \<Rightarrow> string \<Rightarrow> pyval list option" where
  "df_get df col = map_of (columns df) col"

definition set_column :: "dataframe \<Rightarrow> string \<Rightarrow> pyval list \<Rightarrow> dataframe" where
  "set_column df col xs = df\<lparr>columns := AList.update col xs (columns df)\<rparr>"

definition wf_df :: "dataframe \<Rightarrow> bool" where
  "wf_df df \<longleftrightarrow> list_all (\<lambda>(c, xs). length xs = nrows df) (columns df)"

text \<open>
  \<^verbatim>\<open>closes.rolling(window=w, min_periods=m).mean()\<close>, the pandas operation the code
  relies on. The column is first converted to float64 (\<^verbatim>\<open>None\<close> becomes
  \<^verbatim>\<open>nan\<close>; a cell that is not a number makes pandas raise \<^verbatim>\<open>DataError\<close>).
  The window at position \<open>i\<close> holds the cells at positions \<open>max 0 (i + 1 - w)\<close> to
  \<open>i\<close> (the subtraction on \<open>nat\<close> truncates at zero, which is that maximum); its
  observations are the cells that are not \<^verbatim>\<open>nan\<close>; the result is their mean when
  there are at least \<open>m\<close> of them, and \<^verbatim>\<open>nan\<close> otherwise.
\<close>

fun as_float64 :: "pyval \<Rightarrow> error + real option" where
  "as_float64 (Num r) = Inr (Some r)"
| "as_float64 NaN = Inr None"
| "as_float64 PyNone = Inr None"
| "as_float64 _ = Inl DataError"

fun prep_values :: "pyval list \<Rightarrow> error + real option list" where
  "prep_values [] = Inr []"
| "prep_values (x # xs) =
     (case as_float64 x of
        Inl e \<Rightarrow> Inl e
      | Inr y \<Rightarrow> (case prep_values xs of Inl e \<Rightarrow> Inl e | Inr ys \<Rightarrow> Inr (y # ys)))"

definition window_at :: "nat \<Rightarrow> nat \<Rightarrow> 'a list \<Rightarrow> 'a list" where
  "window_at window i xs = drop (Suc i - window) (take (Suc i) xs)"

definition observations :: "real option list \<Rightarrow> real list" where
  "observations w = map the (filter (\<lambda>x. x \<noteq> None) w)"

definition roll_mean :: "nat \<Rightarrow> nat \<Rightarrow> real option list \<Rightarrow> real option list" where
  "roll_mean window min_periods xs =
     map (\<lambda>i. let obs = observations (window_at window i xs)
              in if min_periods \<le> length obs \<and> 0 < length obs
                 then Some (sum_list obs / real (length obs)) else None)
         [0..<length xs]"

fun float_cell :: "real option \<Rightarrow> pyval" where
  "float_cell None = NaN"
| "float_cell (Some r) = Num r"

definition rolling_mean :: "nat \<Rightarrow> pyval list \<Rightarrow> error + pyval list" where
  "rolling_mean window closes =
     (case prep_values closes of
        Inl e \<Rightarrow> Inl e
      | Inr xs \<Rightarrow> Inr (map float_cell (roll_mean window window xs)))"

text \<open>
  \<^verbatim>\<open>calculate_moving_averages\<close>. The loop over the windows reads the Close column
  taken before the loop and writes one column per positive window. The frame is a
  \<^verbatim>\<open>pd.DataFrame\<close>, so the \<^verbatim>\<open>df is None\<close> test has no case here.
\<close>

fun sma_loop :: "pyval list \<Rightarrow> dataframe \<Rightarrow> int list \<Rightarrow> error + dataframe" where
  "sma_loop closes df [] = Inr df"
| "sma_loop closes df (window # windows) =
     (if window \<le> 0 then sma_loop closes df windows
      else
        (let col = sma_col window in
         if window \<le> int (nrows df) then
           (case rolling_mean (nat window) closes of
              Inl e \<Rightarrow> Inl e
            | Inr sma \<Rightarrow> sma_loop closes (set_column df col sma) windows)
         else sma_loop closes (set_column df col (replicate (nrows df) PdNA)) windows))"

definition calculate_moving_averages :: "dataframe \<Rightarrow> int list \<Rightarrow> error + dataframe" where
  "calculate_moving_averages df windows =
     (if df_empty df then Inr df
      else
        (case df_get df ''Close'' of
           None \<Rightarrow> Inr df
         | Some closes \<Rightarrow> sma_loop closes df windows))"

subsection \<open>The loop over the windows\<close>

lemma df_get_set_column:
  "df_get (set_column df c xs) c' = (if c' = c then Some xs else df_get df c')"
  by (simp add: df_get_def set_column_def update_conv')

lemma nrows_set_column: "nrows (set_column df c xs) = nrows df"
  by (simp add: set_column_def)

lemma sma_loop_positive:
  "sma_loop closes df windows = sma_loop closes df (filter (\<lambda>w. 0 < w) windows)"
  by (induction windows arbitrary: df) (simp_all add: Let_def split: sum.splits)

lemma sma_loop_nrows: "sma_loop closes df windows = Inr df' \<Longrightarrow> nrows df' = nrows df"
proof (induction windows arbitrary: df)
  case Nil
  then show ?case by simp
next
  case (Cons w ws)
  then show ?case
    by (auto simp: Let_def nrows_set_column split: if_splits sum.splits dest!: Cons.IH)
qed

lemma sma_loop_other:
  "sma_loop closes df windows = Inr df' \<Longrightarrow> \<forall>w\<in>set windows. 0 < w \<longrightarrow> c \<noteq> sma_col w
   \<Longrightarrow> df_get df' c = df_get df c"
proof (induction windows arbitrary: df)
  case Nil
  then show ?case by simp
next
  case (Cons w ws)
  show ?case
  proof (cases "w \<le> 0")
    case True
    with Cons.prems Cons.IH [of df] show ?thesis by simp
  next
    case False
    then have c: "c \<noteq> sma_col w" using Cons.prems(2) by simp
    from False Cons.prems(1) obtain xs where
      step: "sma_loop closes (set_column df (sma_col w) xs) ws = Inr df'"
      by (auto simp: Let_def split: if_splits sum.splits)
    have "df_get df' c = df_get (set_column df (sma_col w) xs) c"
      using step Cons.prems(2) by (intro Cons.IH) simp_all
    with c show ?thesis by (simp add: df_get_set_column)
  qed
qed

text \<open>What the loop body writes into the column of one positive window.\<close>

definition sma_values :: "nat \<Rightarrow> pyval list \<Rightarrow> int \<Rightarrow> error + pyval list" where
  "sma_values n closes window =
     (if window \<le> int n then rolling_mean (nat window) closes else Inr (replicate n PdNA))"

lemma sma_loop_step:
  "0 < w \<Longrightarrow> sma_loop closes df (w # ws) =
     (case sma_values (nrows df) closes w of
        Inl e \<Rightarrow> Inl e
      | Inr xs \<Rightarrow> sma_loop closes (set_column df (sma_col w) xs) ws)"
  by (simp add: sma_values_def Let_def)

lemma sma_loop_column:
  "sma_loop closes df windows = Inr df' \<Longrightarrow> w \<in> set windows \<Longrightarrow> 0 < w
   \<Longrightarrow> \<exists>xs. sma_values (nrows df) closes w = Inr xs \<and> df_get df' (sma_col w) = Some xs"
proof (induction windows arbitrary: df)
  case Nil
  then show ?case by simp
next
  case (Cons v vs)
  show ?case
  proof (cases "v \<le> 0")
    case True
    with Cons.prems have "sma_loop closes df vs = Inr df'" "w \<in> set vs" by auto
    then show ?thesis using Cons.prems(3) by (rule Cons.IH)
  next
    case False
    then have "0 < v" by simp
    from Cons.prems(1) obtain xs where
      vals: "sma_values (nrows df) closes v = Inr xs" and
      step: "sma_loop closes (set_column df (sma_col v) xs) vs = Inr df'"
      unfolding sma_loop_step [OF \<open>0 < v\<close>] by (auto split: sum.splits)
    show ?thesis
    proof (cases "w \<in> set vs")
      case True
      from Cons.IH [OF step True Cons.prems(3)] show ?thesis
        by (simp add: nrows_set_column)
    next
      case False
      with Cons.prems(2) have wv: "w = v" by simp
      have "\<forall>u\<in>set vs. 0 < u \<longrightarrow> sma_col w \<noteq> sma_col u"
        using False by (auto simp: sma_col_inj)
      with step have "df_get df' (sma_col w) = df_get (set_column df (sma_col v) xs) (sma_col w)"
        by (rule sma_loop_other)
      with wv vals show ?thesis by (simp add: df_get_set_column)
    qed
  qed
qed

lemma sma_loop_success:
  "prep_values closes = Inr xs \<Longrightarrow> \<exists>df'. sma_loop closes df windows = Inr df'"
proof (induction windows arbitrary: df)
  case Nil
  then show ?case by simp
next
  case (Cons w ws)
  then show ?case
    by (auto simp: Let_def rolling_mean_def split: sum.splits)
qed

subsection \<open>The rolling mean, position by position\<close>

lemma prep_values_float_cells: "prep_values (map float_cell cs) = Inr cs"
proof (induction cs)
  case Nil
  then show ?case by simp
next
  case (Cons c cs)
  then show ?case by (cases c) simp_all
qed

lemma window_at_nth:
  assumes "i < length xs"
  shows "window_at W i xs = map (\<lambda>j. xs ! j) [Suc i - W..<Suc i]"
proof -
  have "take (Suc i) xs = map (\<lambda>j. xs ! j) [0..<Suc i]"
    using assms by (intro nth_equalityI) (simp_all del: upt_Suc)
  then show ?thesis
    unfolding window_at_def by (simp add: drop_map drop_upt del: upt_Suc)
qed

lemma observations_length: "length (observations w) \<le> length w"
  by (simp add: observations_def)

lemma observations_full:
  "length (observations w) = length w \<longleftrightarrow> (\<forall>x\<in>set w. x \<noteq> None)"
proof
  assume len: "length (observations w) = length w"
  show "\<forall>x\<in>set w. x \<noteq> None"
  proof
    fix x assume "x \<in> set w"
    show "x \<noteq> None"
    proof
      assume "x = None"
      with \<open>x \<in> set w\<close> have "length (filter (\<lambda>x. x \<noteq> None) w) < length w"
        by (intro length_filter_less [of x]) simp_all
      with len show False by (simp add: observations_def)
    qed
  qed
next
  assume "\<forall>x\<in>set w. x \<noteq> None"
  then have "filter (\<lambda>x. x \<noteq> None) w = w" by (simp add: filter_id_conv)
  then show "length (observations w) = length w" by (simp add: observations_def)
qed

lemma observations_all:
  "\<forall>x\<in>set w. x \<noteq> None \<Longrightarrow> observations w = map the w"
  by (simp add: observations_def filter_id_conv)

lemma roll_mean_length: "length (roll_mean W m xs) = length xs"
  by (simp add: roll_mean_def)

lemma roll_mean_nth:
  assumes "i < length xs" and "0 < W"
  shows "roll_mean W W xs ! i =
     (if W \<le> Suc i \<and> (\<forall>j\<in>{Suc i - W..i}. xs ! j \<noteq> None)
      then Some ((\<Sum>j = Suc i - W..i. the (xs ! j)) / real W) else None)"
proof -
  let ?w = "window_at W i xs"
  have w: "?w = map (\<lambda>j. xs ! j) [Suc i - W..<Suc i]"
    using assms(1) by (rule window_at_nth)
  have lw: "length ?w = min (Suc i) W"
    unfolding w by auto
  have setw: "(\<forall>x\<in>set ?w. x \<noteq> None) \<longleftrightarrow> (\<forall>j\<in>{Suc i - W..i}. xs ! j \<noteq> None)"
    unfolding w by (auto simp del: upt_Suc)
  have val: "roll_mean W W xs ! i =
      (if W \<le> length (observations ?w) then Some (sum_list (observations ?w) / real (length (observations ?w))) else None)"
    using assms by (auto simp: roll_mean_def Let_def simp del: upt_Suc)
  show ?thesis
  proof (cases "W \<le> Suc i \<and> (\<forall>j\<in>{Suc i - W..i}. xs ! j \<noteq> None)")
    case True
    then have all: "\<forall>x\<in>set ?w. x \<noteq> None" using setw by simp
    then have obs: "observations ?w = map (\<lambda>j. the (xs ! j)) [Suc i - W..<Suc i]"
      by (simp add: observations_all w del: upt_Suc)
    have "length (observations ?w) = length ?w"
      using all by (simp only: observations_full)
    with lw True have lobs: "length (observations ?w) = W"
      by simp
    have "sum_list (observations ?w) = (\<Sum>j = Suc i - W..i. the (xs ! j))"
      unfolding obs by (simp add: interv_sum_list_conv_sum_set_nat atLeastLessThanSuc_atLeastAtMost del: upt_Suc)
    with True lobs show ?thesis unfolding val by simp
  next
    case False
    have "length (observations ?w) < W"
    proof (cases "W \<le> Suc i")
      case True
      with False have "\<not> (\<forall>x\<in>set ?w. x \<noteq> None)" using setw by simp
      then have "length (observations ?w) \<noteq> length ?w" by (simp add: observations_full)
      with observations_length [of ?w] lw True show ?thesis by simp
    next
      case False
      with observations_length [of ?w] lw show ?thesis by simp
    qed
    with False show ?thesis unfolding val by simp
  qed
qed

subsection \<open>Moving-average columns\<close>

lemma prep_values_length: "prep_values col = Inr xs \<Longrightarrow> length xs = length col"
  by (induction col arbitrary: xs) (auto split: sum.splits)

lemma wf_df_column: "wf_df df \<Longrightarrow> df_get df c = Some xs \<Longrightarrow> length xs = nrows df"
  by (auto simp: wf_df_def df_get_def list_all_iff dest!: map_of_SomeD)

lemma df_get_not_empty: "df_get df c = Some xs \<Longrightarrow> columns df \<noteq> []"
  by (auto simp: df_get_def)

lemma calculate_moving_averages_loop:
  "\<not> df_empty df \<Longrightarrow> df_get df ''Close'' = Some col
   \<Longrightarrow> calculate_moving_averages df windows = sma_loop col df windows"
  by (simp add: calculate_moving_averages_def)

text \<open>An empty frame is returned as it is, whatever the windows.\<close>

lemma calculate_moving_averages_empty:
  "df_empty df \<Longrightarrow> calculate_moving_averages df windows = Inr df"
  by (simp add: calculate_moving_averages_def)

text \<open>
  C1. For a positive window \<open>W\<close> among the requested windows and a numeric close
  series of length at least \<open>W\<close>, \<^verbatim>\<open>calculate_moving_averages\<close> returns a frame
  whose \<^verbatim>\<open>SMA_W\<close> column has, at every position \<open>i \<ge> W - 1\<close>, the arithmetic mean
  of the \<open>W\<close> closes at positions \<open>i - W + 1\<close> to \<open>i\<close>, and a missing value at every
  earlier position. (A window that contains a missing close has no mean: its value is
  missing too.)
\<close>

theorem calculate_moving_averages_mean:
  assumes "wf_df df"
    and "df_get df ''Close'' = Some col"
    and "prep_values col = Inr closes"
    and "0 < W" and "W \<le> int (length closes)"
    and "W \<in> set windows"
  shows "\<exists>df' sma. calculate_moving_averages df windows = Inr df'
     \<and> df_get df' (sma_col W) = Some sma
     \<and> length sma = length closes
     \<and> (\<forall>i<length closes. sma ! i =
           (if W - 1 \<le> int i \<and> (\<forall>j\<in>{Suc i - nat W..i}. closes ! j \<noteq> None)
            then Num ((\<Sum>j = Suc i - nat W..i. the (closes ! j)) / real_of_int W)
            else NaN))"
proof -
  have n: "nrows df = length closes"
    using assms(1-3) by (simp add: wf_df_column prep_values_length)
  then have "\<not> df_empty df"
    using assms(2,4,5) by (auto simp: df_empty_def dest: df_get_not_empty)
  then have run: "calculate_moving_averages df windows = sma_loop col df windows"
    using assms(2) by (rule calculate_moving_averages_loop)
  from assms(3) obtain df' where df': "sma_loop col df windows = Inr df'"
    using sma_loop_success by blast
  from sma_loop_column [OF df' assms(6) assms(4)] obtain sma where
    vals: "sma_values (nrows df) col W = Inr sma" and col: "df_get df' (sma_col W) = Some sma"
    by blast
  from vals have sma: "sma = map float_cell (roll_mean (nat W) (nat W) closes)"
    using assms(3,5) by (simp add: sma_values_def rolling_mean_def n)
  have "sma ! i =
           (if W - 1 \<le> int i \<and> (\<forall>j\<in>{Suc i - nat W..i}. closes ! j \<noteq> None)
            then Num ((\<Sum>j = Suc i - nat W..i. the (closes ! j)) / real_of_int W)
            else NaN)" if "i < length closes" for i
  proof -
    have pos: "0 < nat W" using assms(4) by simp
    have le: "nat W \<le> Suc i \<longleftrightarrow> W - 1 \<le> int i" by linarith
    have "sma ! i = float_cell (roll_mean (nat W) (nat W) closes ! i)"
      using that by (simp add: sma roll_mean_length)
    then show ?thesis
      using assms(4) by (simp add: roll_mean_nth [OF that pos] le)
  qed
  with run df' col sma show ?thesis
    by (simp add: roll_mean_length)
qed

theorem calculate_moving_averages_mean_witness:
  "\<exists>df' sma. calculate_moving_averages
       \<lparr>nrows = 3, columns = [(''Close'', [Num 1, Num 2, Num 6])]\<rparr> [2] = Inr df'
     \<and> df_get df' (sma_col 2) = Some sma
     \<and> sma ! 0 = NaN \<and> sma ! 2 = Num 4"
proof -
  let ?df = "\<lparr>nrows = 3, columns = [(''Close'', [Num 1, Num 2, Num 6])]\<rparr>"
  have h1: "wf_df ?df" by (simp add: wf_df_def)
  have h2: "df_get ?df ''Close'' = Some [Num 1, Num 2, Num 6]" by (simp add: df_get_def)
  have h3: "prep_values [Num 1, Num 2, Num 6] = Inr [Some 1, Some 2, Some 6]" by simp
  have s: "{Suc 0..2} = {1, 2::nat}" by auto
  from calculate_moving_averages_mean [OF h1 h2 h3, of 2 "[2]"]
  obtain df' sma where r: "calculate_moving_averages ?df [2] = Inr df'"
      "df_get df' (sma_col 2) = Some sma"
      and v: "\<forall>i<length [Some 1, Some 2, Some (6::real)]. sma ! i =
           (if (2::int) - 1 \<le> int i \<and> (\<forall>j\<in>{Suc i - nat 2..i}. [Some 1, Some 2, Some (6::real)] ! j \<noteq> None)
            then Num ((\<Sum>j = Suc i - nat 2..i. the ([Some 1, Some 2, Some 6] ! j)) / real_of_int 2)
            else NaN)"
    by auto
  from v have "sma ! 0 = NaN" by simp
  moreover from v have "sma ! 2 = Num 4" by (simp add: s)
  ultimately show ?thesis using r by blast
qed

text \<open>
  C4, as stated: every series shorter than the window, the empty one included, would get
  an all-missing \<^verbatim>\<open>SMA_W\<close> column. An empty frame is returned at once by the
  \<^verbatim>\<open>df.empty\<close> guard, before any column is created.
\<close>

theorem empty_frame_gets_no_column:
  "calculate_moving_averages \<lparr>nrows = 0, columns = [(''Close'', [])]\<rparr> [1]
     = Inr \<lparr>nrows = 0, columns = [(''Close'', [])]\<rparr>
   \<and> df_get \<lparr>nrows = 0, columns = [(''Close'', [])]\<rparr> (sma_col 1) = None"
  by (simp add: calculate_moving_averages_def df_empty_def df_get_def sma_col_def)

text \<open>
  C4, amended: for a positive window \<open>W\<close> among the requested windows and a non-empty
  numeric close series of length strictly less than \<open>W\<close>, the function creates the
  \<^verbatim>\<open>SMA_W\<close> column and fills it with \<^verbatim>\<open>pd.NA\<close>.
\<close>

theorem calculate_moving_averages_short:
  assumes "wf_df df"
    and "df_get df ''Close'' = Some col"
    and "prep_values col = Inr closes"
    and "0 < length closes" and "int (length closes) < W"
    and "W \<in> set windows"
  shows "\<exists>df'. calculate_moving_averages df windows = Inr df'
     \<and> df_get df' (sma_col W) = Some (replicate (length closes) PdNA)"
proof -
  have n: "nrows df = length closes"
    using assms(1-3) by (simp add: wf_df_column prep_values_length)
  then have "\<not> df_empty df"
    using assms(2,4) by (auto simp: df_empty_def dest: df_get_not_empty)
  then have run: "calculate_moving_averages df windows = sma_loop col df windows"
    using assms(2) by (rule calculate_moving_averages_loop)
  from assms(3) obtain df' where df': "sma_loop col df windows = Inr df'"
    using sma_loop_success by blast
  have "0 < W" using assms(5) by simp
  from sma_loop_column [OF df' assms(6) this] obtain sma where
    "sma_values (nrows df) col W = Inr sma" "df_get df' (sma_col W) = Some sma"
    by blast
  with assms(5) run df' show ?thesis
    by (simp add: sma_values_def n)
qed

theorem calculate_moving_averages_short_witness:
  "\<exists>df'. calculate_moving_averages
       \<lparr>nrows = 2, columns = [(''Close'', [Num 1, Num 2])]\<rparr> [3] = Inr df'
     \<and> df_get df' (sma_col 3) = Some [PdNA, PdNA]"
proof -
  let ?df = "\<lparr>nrows = 2, columns = [(''Close'', [Num 1, Num 2])]\<rparr>"
  have h1: "wf_df ?df" by (simp add: wf_df_def)
  have h2: "df_get ?df ''Close'' = Some [Num 1, Num 2]" by (simp add: df_get_def)
  have h3: "prep_values [Num 1, Num 2] = Inr [Some 1, Some 2]" by simp
  from calculate_moving_averages_short [OF h1 h2 h3, of 3 "[3]"]
  show ?thesis by (simp add: numeral_2_eq_2)
qed

text \<open>
  C8. Non-positive windows are skipped: the call behaves as the call on the positive
  windows alone, and in the returned frame the column named after a non-positive window,
  and every column not named after a positive requested window, is what it was (absent
  if it was absent); the number of rows does not change.
\<close>

theorem nonpositive_windows_ignored:
  "calculate_moving_averages df windows
     = calculate_moving_averages df (filter (\<lambda>w. 0 < w) windows)
   \<and> (calculate_moving_averages df windows = Inr df' \<longrightarrow>
        nrows df' = nrows df
        \<and> (\<forall>w\<in>set windows. w \<le> 0 \<longrightarrow> df_get df' (sma_col w) = df_get df (sma_col w))
        \<and> (\<forall>c. (\<forall>w\<in>set windows. 0 < w \<longrightarrow> c \<noteq> sma_col w) \<longrightarrow> df_get df' c = df_get df c))"
proof (intro conjI impI)
  show "calculate_moving_averages df windows
     = calculate_moving_averages df (filter (\<lambda>w. 0 < w) windows)"
    using sma_loop_positive by (simp add: calculate_moving_averages_def split: option.splits)
next
  assume r: "calculate_moving_averages df windows = Inr df'"
  have other: "df_get df' c = df_get df c" if "\<forall>w\<in>set windows. 0 < w \<longrightarrow> c \<noteq> sma_col w" for c
    using r that
    by (auto simp: calculate_moving_averages_def split: if_splits option.splits dest: sma_loop_other)
  show "nrows df' = nrows df"
    using r by (auto simp: calculate_moving_averages_def split: if_splits option.splits dest: sma_loop_nrows)
  show "\<forall>w\<in>set windows. w \<le> 0 \<longrightarrow> df_get df' (sma_col w) = df_get df (sma_col w)"
  proof (intro ballI impI)
    fix w assume "w \<in> set windows" "w \<le> 0"
    then have "\<forall>v\<in>set windows. 0 < v \<longrightarrow> sma_col w \<noteq> sma_col v"
      by (auto simp: sma_col_inj)
    then show "df_get df' (sma_col w) = df_get df (sma_col w)" by (rule other)
  qed
  show "\<forall>c. (\<forall>w\<in>set windows. 0 < w \<longrightarrow> c \<noteq> sma_col w) \<longrightarrow> df_get df' c = df_get df c"
    using other by blast
qed

theorem nonpositive_windows_ignored_witness:
  "calculate_moving_averages \<lparr>nrows = 2, columns = [(''Close'', [Num 1, Num 3])]\<rparr> [0, 2, - 5]
     = Inr \<lparr>nrows = 2, columns = [(''Close'', [Num 1, Num 3]), (''SMA_2'', [NaN, Num 2])]\<rparr>
   \<and> df_get \<lparr>nrows = 2, columns = [(''Close'', [Num 1, Num 3]), (''SMA_2'', [NaN, Num 2])]\<rparr> (sma_col 0) = None
   \<and> df_get \<lparr>nrows = 2, columns = [(''Close'', [Num 1, Num 3]), (''SMA_2'', [NaN, Num 2])]\<rparr> (sma_col (- 5)) = None
   \<and> df_get \<lparr>nrows = 2, columns = [(''Close'', [Num 1, Num 3]), (''SMA_2'', [NaN, Num 2])]\<rparr> ''Close'' = Some [Num 1, Num 3]"
proof -
  let ?df = "\<lparr>nrows = 2, columns = [(''Close'', [Num 1, Num 3])]\<rparr>"
  let ?df' = "\<lparr>nrows = 2, columns = [(''Close'', [Num 1, Num 3]), (''SMA_2'', [NaN, Num 2])]\<rparr>"
  have r: "calculate_moving_averages ?df [0, 2, - 5] = Inr ?df'"
    by code_simp
  have z: "df_get ?df (sma_col 0) = None" "df_get ?df (sma_col (- 5)) = None"
    "df_get ?df' ''Close'' = Some [Num 1, Num 3]"
    by code_simp+
  from nonpositive_windows_ignored [of ?df "[0, 2, - 5]" ?df'] r
  have "\<forall>w\<in>set [0, 2, - 5]. w \<le> 0 \<longrightarrow> df_get ?df' (sma_col w) = df_get ?df (sma_col w)"
    by blast
  then have "df_get ?df' (sma_col 0) = df_get ?df (sma_col 0)"
    "df_get ?df' (sma_col (- 5)) = df_get ?df (sma_col (- 5))"
    by simp_all
  with r z show ?thesis by simp
qed

section \<open>Signals (\<^verbatim>\<open>indicators.py\<close>)\<close>

text \<open>
  \<^verbatim>\<open>df.iloc[-1]\<close> is the last row, a Series labelled by the column names;
  \<^verbatim>\<open>latest.get(c)\<close> is its cell, or \<^verbatim>\<open>None\<close> for a label it does not have.
\<close>

type_synonym row = "(string \<times> pyval) list"

definition iloc_last :: "dataframe \<Rightarrow> row" where
  "iloc_last df = map (\<lambda>(c, xs). (c, last xs)) (columns df)"

definition row_get :: "row \<Rightarrow> string \<Rightarrow> pyval" where
  "row_get r col = (case map_of r col of None \<Rightarrow> PyNone | Some v \<Rightarrow> v)"

text \<open>
  \<^verbatim>\<open>get_ma_signals\<close>: the dictionary of signals keeps insertion order and one
  entry per window, which is what \<open>AList.update\<close> does.
\<close>

fun signals_loop ::
  "pyval \<Rightarrow> row \<Rightarrow> (int \<times> string) list \<Rightarrow> int list \<Rightarrow> error + (int \<times> string) list" where
  "signals_loop close latest signals [] = Inr signals"
| "signals_loop close latest signals (window # windows) =
     (let col = sma_col window; ma_value = row_get latest col in
      case to_scalar close of
        Inl e \<Rightarrow> Inl e
      | Inr close_scalar \<Rightarrow>
          (case to_scalar ma_value of
             Inl e \<Rightarrow> Inl e
           | Inr ma_scalar \<Rightarrow>
               signals_loop close latest
                 (AList.update window
                    (case (close_scalar, ma_scalar) of
                       (Some c, Some m) \<Rightarrow> if float_gt c m then ''above'' else ''below''
                     | _ \<Rightarrow> ''n/a'')
                    signals)
                 windows))"

definition get_ma_signals :: "dataframe \<Rightarrow> int list \<Rightarrow> error + (int \<times> string) list \<times> row" where
  "get_ma_signals df windows =
     (if df_empty df then Inr ([], [])
      else
        (let latest = iloc_last df; close = row_get latest ''Close'' in
         case signals_loop close latest [] windows of
           Inl e \<Rightarrow> Inl e
         | Inr signals \<Rightarrow> Inr (signals, latest)))"

text \<open>
  The change since the start of the window, as \<^verbatim>\<open>main\<close> in \<^verbatim>\<open>app.py\<close>
  computes it from the coerced first and last close.
\<close>

definition change_pct :: "pyfloat option \<Rightarrow> pyfloat option \<Rightarrow> error + pyfloat option" where
  "change_pct first_close last_close =
     (case (first_close, last_close) of
        (Some f, Some l) \<Rightarrow>
          if \<not> float_is_zero f then
            (case float_div l f of
               Inl e \<Rightarrow> Inl e
             | Inr q \<Rightarrow> Inr (Some (float_mul (float_sub q (Fin 1)) (Fin 100))))
          else Inr None
      | _ \<Rightarrow> Inr None)"

subsection \<open>Classification of the latest bar\<close>

definition signal_of :: "pyfloat option \<Rightarrow> pyfloat option \<Rightarrow> string" where
  "signal_of c m = (case (c, m) of
       (Some x, Some y) \<Rightarrow> if float_gt x y then ''above'' else ''below''
     | _ \<Rightarrow> ''n/a'')"

lemma signals_loop_result:
  assumes "to_scalar close = Inr c"
    and "\<forall>v\<in>set windows. \<exists>m. to_scalar (row_get latest (sma_col v)) = Inr m"
  shows "\<exists>signals. signals_loop close latest acc windows = Inr signals
     \<and> (\<forall>w m. to_scalar (row_get latest (sma_col w)) = Inr m \<longrightarrow>
           map_of signals w = (if w \<in> set windows then Some (signal_of c m) else map_of acc w))"
  using assms(2)
proof (induction windows arbitrary: acc)
  case Nil
  then show ?case by simp
next
  case (Cons v vs)
  from Cons.prems obtain mv where mv: "to_scalar (row_get latest (sma_col v)) = Inr mv"
    by auto
  let ?acc = "AList.update v (signal_of c mv) acc"
  have step: "signals_loop close latest acc (v # vs) = signals_loop close latest ?acc vs"
    using assms(1) mv by (simp add: signal_of_def)
  from Cons.prems have "\<forall>u\<in>set vs. \<exists>m. to_scalar (row_get latest (sma_col u)) = Inr m"
    by simp
  from Cons.IH [OF this, of ?acc] obtain signals where
    s: "signals_loop close latest ?acc vs = Inr signals" and
    m: "\<forall>w m. to_scalar (row_get latest (sma_col w)) = Inr m \<longrightarrow>
           map_of signals w = (if w \<in> set vs then Some (signal_of c m) else map_of ?acc w)"
    by blast
  show ?case
    unfolding step using s m mv by (auto simp: update_conv')
qed

text \<open>
  C2. On a frame that has a latest bar, when the coercions succeed,
  \<^verbatim>\<open>get_ma_signals\<close> returns, for every requested window, \<^verbatim>\<open>'above'\<close>
  exactly when both coerced values are present and the close is strictly greater than the
  moving average; \<^verbatim>\<open>'below'\<close> when the close is less than or equal to it (there is
  no branch for equality); and \<^verbatim>\<open>'n/a'\<close> whenever either value is missing.
\<close>

theorem get_ma_signals_classifies:
  assumes "\<not> df_empty df"
    and "to_scalar (row_get (iloc_last df) ''Close'') = Inr close"
    and "\<forall>v\<in>set windows. \<exists>m. to_scalar (row_get (iloc_last df) (sma_col v)) = Inr m"
    and "w \<in> set windows"
    and "to_scalar (row_get (iloc_last df) (sma_col w)) = Inr ma"
  shows "\<exists>signals. get_ma_signals df windows = Inr (signals, iloc_last df)
     \<and> (map_of signals w = Some ''above'' \<longleftrightarrow> (\<exists>c m. close = Some c \<and> ma = Some m \<and> float_gt c m))
     \<and> (\<forall>x y. close = Some (Fin x) \<and> ma = Some (Fin y) \<longrightarrow>
           map_of signals w = Some (if x > y then ''above'' else ''below''))
     \<and> (close = None \<or> ma = None \<longrightarrow> map_of signals w = Some ''n/a'')"
proof -
  from signals_loop_result [OF assms(2,3), of "[]"] obtain signals where
    s: "signals_loop (row_get (iloc_last df) ''Close'') (iloc_last df) [] windows = Inr signals" and
    m: "\<forall>w m. to_scalar (row_get (iloc_last df) (sma_col w)) = Inr m \<longrightarrow>
           map_of signals w = (if w \<in> set windows then Some (signal_of close m) else map_of [] w)"
    by blast
  from m assms(4,5) have w: "map_of signals w = Some (signal_of close ma)"
    by simp
  have run: "get_ma_signals df windows = Inr (signals, iloc_last df)"
    using assms(1) s by (simp add: get_ma_signals_def)
  have "signal_of close ma = ''above'' \<longleftrightarrow> (\<exists>c m. close = Some c \<and> ma = Some m \<and> float_gt c m)"
    by (auto simp: signal_of_def split: option.splits)
  moreover have "signal_of (Some (Fin x)) (Some (Fin y)) = (if x > y then ''above'' else ''below'')" for x y
    by (simp add: signal_of_def)
  moreover have "close = None \<or> ma = None \<Longrightarrow> signal_of close ma = ''n/a''"
    by (auto simp: signal_of_def split: option.splits)
  ultimately show ?thesis
    using run w by auto
qed

theorem get_ma_signals_classifies_witness:
  "\<exists>signals. get_ma_signals
       \<lparr>nrows = 2, columns = [(''Close'', [Num 95, Num 105]), (''SMA_2'', [NaN, Num 100])]\<rparr> [2, 3]
       = Inr (signals, [(''Close'', Num 105), (''SMA_2'', Num 100)])
     \<and> map_of signals 2 = Some ''above'' \<and> map_of signals 3 = Some ''n/a''"
proof -
  let ?df = "\<lparr>nrows = 2, columns = [(''Close'', [Num 95, Num 105]), (''SMA_2'', [NaN, Num 100])]\<rparr>"
  have l: "iloc_last ?df = [(''Close'', Num 105), (''SMA_2'', Num 100)]"
    by (simp add: iloc_last_def)
  have h1: "\<not> df_empty ?df" by (simp add: df_empty_def)
  have h2: "to_scalar (row_get (iloc_last ?df) ''Close'') = Inr (Some (Fin 105))"
    unfolding l by code_simp
  have m2: "to_scalar (row_get (iloc_last ?df) (sma_col 2)) = Inr (Some (Fin 100))"
    unfolding l by code_simp
  have m3: "to_scalar (row_get (iloc_last ?df) (sma_col 3)) = Inr None"
    unfolding l by code_simp
  have h3: "\<forall>v\<in>set [2, 3]. \<exists>m. to_scalar (row_get (iloc_last ?df) (sma_col v)) = Inr m"
    using m2 m3 by simp
  from get_ma_signals_classifies [OF h1 h2 h3 _ m2]
  obtain s2 where a: "get_ma_signals ?df [2, 3] = Inr (s2, iloc_last ?df)"
    "map_of s2 2 = Some ''above''"
    by auto
  from get_ma_signals_classifies [OF h1 h2 h3 _ m3]
  obtain s3 where b: "get_ma_signals ?df [2, 3] = Inr (s3, iloc_last ?df)"
    "map_of s3 3 = Some ''n/a''"
    by auto
  from a b have "s2 = s3" by simp
  with a b l show ?thesis by auto
qed

subsection \<open>Percent change\<close>

text \<open>
  C5. With both closes present and a nonzero first close the change is
  \<open>(last / first - 1) * 100\<close>, so 50 and 75 give 50 percent; with a first close of 0 the
  result is missing and no division is attempted.
\<close>

theorem change_pct_value:
  "(f \<noteq> 0 \<longrightarrow> change_pct (Some (Fin f)) (Some (Fin l)) = Inr (Some (Fin ((l / f - 1) * 100))))
   \<and> change_pct (Some (Fin 0)) last_close = Inr None
   \<and> change_pct (Some (Fin 50)) (Some (Fin 75)) = Inr (Some (Fin 50))"
  by (simp add: change_pct_def split: option.splits)

theorem change_pct_value_witness:
  "change_pct (Some (Fin 40)) (Some (Fin 30)) = Inr (Some (Fin (- 25)))"
  using change_pct_value [of 40 30] by simp

section \<open>The IPO table and manual tickers (\<^verbatim>\<open>app.py\<close>)\<close>

text \<open>
  One record of the IPO table. The date is a day number; \<open>None\<close> is a missing date
  (\<^verbatim>\<open>NaT\<close>). The table itself is the list of its rows, in order.
\<close>

record ipo =
  ticker :: string
  company :: string
  exchange :: string
  ipo_date :: "int option"

text \<open>
  \<^verbatim>\<open>str.strip\<close>, \<^verbatim>\<open>str.upper\<close> and \<^verbatim>\<open>str.split(",")\<close> on ASCII text:
  the whitespace characters are the codes 9 to 13 and 28 to 32, and only the letters
  \<^verbatim>\<open>a\<close> to \<^verbatim>\<open>z\<close> have an upper-case form. (The names \<open>strip\<close>, \<open>upper\<close> and
  \<open>split\<close> are Python's.)
\<close>

definition isspace :: "char \<Rightarrow> bool" where
  "isspace c \<longleftrightarrow> (let n = (of_char c :: nat) in (9 \<le> n \<and> n \<le> 13) \<or> (28 \<le> n \<and> n \<le> 32))"

definition strip :: "string \<Rightarrow> string" where
  "strip s = rev (dropWhile isspace (rev (dropWhile isspace s)))"

definition upper_char :: "char \<Rightarrow> char" where
  "upper_char c = (let n = (of_char c :: nat) in if 97 \<le> n \<and> n \<le> 122 then char_of (n - 32) else c)"

definition upper :: "string \<Rightarrow> string" where
  "upper s = map upper_char s"

fun split :: "char \<Rightarrow> string \<Rightarrow> string list" where
  "split sep [] = [[]]"
| "split sep (c # cs) =
     (if c = sep then [] # split sep cs
      else (case split sep cs of p # ps \<Rightarrow> (c # p) # ps | [] \<Rightarrow> [[c]]))"

text \<open>
  The manual-ticker block of \<^verbatim>\<open>main\<close>: the text field is cut at the commas, each
  piece is stripped and upper-cased, blank pieces are dropped; then every ticker that
  is not in the table yet is appended with today's date (\<^verbatim>\<open>pd.concat\<close> with
  \<^verbatim>\<open>ignore_index=True\<close> appends a row).
\<close>

definition manual_list :: "string \<Rightarrow> string list" where
  "manual_list manual_tickers =
     (if strip manual_tickers \<noteq> []
      then map (\<lambda>t. upper (strip t)) (filter (\<lambda>t. strip t \<noteq> []) (split CHR '','' manual_tickers))
      else [])"

definition manual_record :: "int \<Rightarrow> string \<Rightarrow> ipo" where
  "manual_record today t = \<lparr>ticker = t, company = t, exchange = [], ipo_date = Some today\<rparr>"

fun attach_manual :: "int \<Rightarrow> ipo list \<Rightarrow> string list \<Rightarrow> ipo list" where
  "attach_manual today ipos_df [] = ipos_df"
| "attach_manual today ipos_df (t # ts) =
     attach_manual today
       (if ipos_df = [] \<or> t \<notin> set (map ticker ipos_df)
        then ipos_df @ [manual_record today t] else ipos_df)
       ts"

definition merge_manual_tickers :: "int \<Rightarrow> string \<Rightarrow> ipo list \<Rightarrow> ipo list" where
  "merge_manual_tickers today manual_tickers ipos_df =
     attach_manual today ipos_df (manual_list manual_tickers)"


subsection \<open>Merging manual tickers\<close>

lemma filter_unique:
  "distinct (map f xs) \<Longrightarrow> x \<in> set xs \<Longrightarrow> filter (\<lambda>r. f r = f x) xs = [x]"
proof (induction xs)
  case Nil
  then show ?case by simp
next
  case (Cons y ys)
  show ?case
  proof (cases "x = y")
    case True
    with Cons.prems have "f x \<notin> f ` set ys" by simp
    then have "\<forall>r\<in>set ys. f r \<noteq> f x" by (metis imageI)
    then have "filter (\<lambda>r. f r = f x) ys = []" by (simp add: filter_empty_conv)
    with True show ?thesis by simp
  next
    case False
    with Cons show ?thesis by auto
  qed
qed

lemma attach_manual_appends:
  "\<exists>new. attach_manual today ipos ts = ipos @ new
     \<and> (\<forall>r\<in>set new. r = manual_record today (ticker r) \<and> ticker r \<in> set ts
            \<and> ticker r \<notin> ticker ` set ipos)
     \<and> distinct (map ticker new)
     \<and> set ts \<subseteq> ticker ` set (ipos @ new)"
proof (induction ts arbitrary: ipos)
  case Nil
  then show ?case by simp
next
  case (Cons t ts)
  show ?case
  proof (cases "t \<in> ticker ` set ipos")
    case True
    then have "attach_manual today ipos (t # ts) = attach_manual today ipos ts" by auto
    with Cons.IH [of ipos] True show ?thesis by auto
  next
    case False
    let ?ipos = "ipos @ [manual_record today t]"
    from False have step: "attach_manual today ipos (t # ts) = attach_manual today ?ipos ts"
      by auto
    from Cons.IH [of ?ipos] obtain new where
      n: "attach_manual today ?ipos ts = ?ipos @ new"
        "\<forall>r\<in>set new. r = manual_record today (ticker r) \<and> ticker r \<in> set ts
            \<and> ticker r \<notin> ticker ` set ?ipos"
        "distinct (map ticker new)"
        "set ts \<subseteq> ticker ` set (?ipos @ new)"
      by blast
    have t: "ticker (manual_record today t) = t" by (simp add: manual_record_def)
    let ?new = "manual_record today t # new"
    have "attach_manual today ipos (t # ts) = ipos @ ?new" using step n(1) by simp
    moreover have "\<forall>r\<in>set ?new. r = manual_record today (ticker r) \<and> ticker r \<in> set (t # ts)
            \<and> ticker r \<notin> ticker ` set ipos"
      using n(2) False t by auto
    moreover have "distinct (map ticker ?new)" using n(2,3) t by auto
    moreover have "set (t # ts) \<subseteq> ticker ` set (ipos @ ?new)" using n(4) t by auto
    ultimately show ?thesis by blast
  qed
qed

text \<open>
  C9. The merged table is the IPO table followed by new records. For every manual
  ticker (as the code reads it: stripped and upper-cased), if the IPO table already has
  the ticker its records are exactly the ones it had, and otherwise the merged table has
  exactly one record for it, with the ticker as company, no exchange and today's date as
  IPO date.
\<close>

theorem manual_tickers_merged:
  "\<exists>new. merge_manual_tickers today manual_tickers ipos_df = ipos_df @ new
     \<and> (\<forall>t\<in>set (manual_list manual_tickers).
           filter (\<lambda>r. ticker r = t) (ipos_df @ new) =
             (if t \<in> ticker ` set ipos_df then filter (\<lambda>r. ticker r = t) ipos_df
              else [\<lparr>ticker = t, company = t, exchange = [], ipo_date = Some today\<rparr>]))"
proof -
  from attach_manual_appends [of today ipos_df "manual_list manual_tickers"] obtain new where
    n: "attach_manual today ipos_df (manual_list manual_tickers) = ipos_df @ new"
      "\<forall>r\<in>set new. r = manual_record today (ticker r) \<and> ticker r \<in> set (manual_list manual_tickers)
            \<and> ticker r \<notin> ticker ` set ipos_df"
      "distinct (map ticker new)"
      "set (manual_list manual_tickers) \<subseteq> ticker ` set (ipos_df @ new)"
    by blast
  have "filter (\<lambda>r. ticker r = t) (ipos_df @ new) =
             (if t \<in> ticker ` set ipos_df then filter (\<lambda>r. ticker r = t) ipos_df
              else [\<lparr>ticker = t, company = t, exchange = [], ipo_date = Some today\<rparr>])"
    if t: "t \<in> set (manual_list manual_tickers)" for t
  proof (cases "t \<in> ticker ` set ipos_df")
    case True
    then have "\<forall>r\<in>set new. ticker r \<noteq> t" using n(2) by auto
    then have "filter (\<lambda>r. ticker r = t) new = []" by (simp add: filter_empty_conv)
    with True show ?thesis by simp
  next
    case False
    then have old: "filter (\<lambda>r. ticker r = t) ipos_df = []" by (auto simp: filter_empty_conv)
    from t n(4) False obtain r where r: "r \<in> set new" "ticker r = t" by auto
    from filter_unique [OF n(3) r(1)] r(2) have "filter (\<lambda>x. ticker x = t) new = [r]" by simp
    moreover from n(2) r have "r = manual_record today t" by auto
    ultimately show ?thesis using False old by (simp add: manual_record_def)
  qed
  with n(1) show ?thesis unfolding merge_manual_tickers_def by blast
qed

theorem manual_tickers_merged_witness:
  "\<exists>new. merge_manual_tickers 7 ''arm, xyz''
        [\<lparr>ticker = ''ARM'', company = ''Arm Holdings plc'', exchange = ''NASDAQ'', ipo_date = Some 3\<rparr>]
      = [\<lparr>ticker = ''ARM'', company = ''Arm Holdings plc'', exchange = ''NASDAQ'', ipo_date = Some 3\<rparr>] @ new
     \<and> filter (\<lambda>r. ticker r = ''XYZ'')
          ([\<lparr>ticker = ''ARM'', company = ''Arm Holdings plc'', exchange = ''NASDAQ'', ipo_date = Some 3\<rparr>] @ new)
        = [\<lparr>ticker = ''XYZ'', company = ''XYZ'', exchange = [], ipo_date = Some 7\<rparr>]
     \<and> filter (\<lambda>r. ticker r = ''ARM'')
          ([\<lparr>ticker = ''ARM'', company = ''Arm Holdings plc'', exchange = ''NASDAQ'', ipo_date = Some 3\<rparr>] @ new)
        = [\<lparr>ticker = ''ARM'', company = ''Arm Holdings plc'', exchange = ''NASDAQ'', ipo_date = Some 3\<rparr>]"
proof -
  have l: "manual_list ''arm, xyz'' = [''ARM'', ''XYZ'']"
    by code_simp
  from manual_tickers_merged [of 7 "''arm, xyz''"
      "[\<lparr>ticker = ''ARM'', company = ''Arm Holdings plc'', exchange = ''NASDAQ'', ipo_date = Some 3\<rparr>]"]
  show ?thesis unfolding l by auto
qed

section \<open>Recent IPOs (\<^verbatim>\<open>data_fetcher.py\<close>)\<close>

text \<open>
  A row of the Finnhub IPO calendar, as far as \<^verbatim>\<open>get_recent_ipos\<close> reads it. The
  date field is absent or empty (\<open>NoDate\<close>), a string \<^verbatim>\<open>pd.to_datetime\<close> rejects
  (\<open>BadDate\<close>: the exception is caught by the \<^verbatim>\<open>except Exception\<close> around the
  whole loop, which empties the record list), or a day.
\<close>

datatype date_field = NoDate | BadDate | Day int

record calendar_row =
  row_symbol :: "string option"
  row_name :: "string option"
  row_exchange :: "string option"
  row_date :: date_field

text \<open>\<^verbatim>\<open>x in exchange\<close> for strings is the substring test.\<close>

fun startswith :: "string \<Rightarrow> string \<Rightarrow> bool" where
  "startswith s [] = True"
| "startswith [] (p # ps) = False"
| "startswith (c # cs) (p # ps) = (c = p \<and> startswith cs ps)"

fun contains :: "string \<Rightarrow> string \<Rightarrow> bool" where
  "contains [] x = (x = [])"
| "contains (c # cs) x = (startswith (c # cs) x \<or> contains cs x)"

fun collect_records :: "calendar_row list \<Rightarrow> ipo list option" where
  "collect_records [] = Some []"
| "collect_records (row # calendar) =
     (case row_symbol row of
        None \<Rightarrow> collect_records calendar
      | Some symbol \<Rightarrow>
          if symbol = [] then collect_records calendar
          else
            (let exchange = upper (case row_exchange row of None \<Rightarrow> [] | Some e \<Rightarrow> e) in
             if \<not> list_ex (\<lambda>x. contains exchange x) [''NASDAQ'', ''NYSE'', ''AMEX'', ''BATS'']
             then collect_records calendar
             else
               (case row_date row of
                  BadDate \<Rightarrow> None
                | d \<Rightarrow>
                    (case collect_records calendar of
                       None \<Rightarrow> None
                     | Some records \<Rightarrow>
                         Some (\<lparr>ticker = upper symbol,
                                company = (case row_name row of
                                             None \<Rightarrow> upper symbol
                                           | Some n \<Rightarrow> if n = [] then upper symbol else n),
                                exchange = exchange,
                                ipo_date = (case d of Day n \<Rightarrow> Some n | _ \<Rightarrow> None)\<rparr>
                               # records)))))"

definition demo_data :: "int \<Rightarrow> ipo list" where
  "demo_data today =
     [\<lparr>ticker = ''ARM'', company = ''Arm Holdings plc'', exchange = ''NASDAQ'', ipo_date = Some (today - 160)\<rparr>,
      \<lparr>ticker = ''KVYO'', company = ''Klaviyo Inc.'', exchange = ''NYSE'', ipo_date = Some (today - 140)\<rparr>,
      \<lparr>ticker = ''CART'', company = ''Maplebear Inc. (Instacart)'', exchange = ''NASDAQ'', ipo_date = Some (today - 135)\<rparr>,
      \<lparr>ticker = ''BIRK'', company = ''Birkenstock Holding plc'', exchange = ''NYSE'', ipo_date = Some (today - 130)\<rparr>,
      \<lparr>ticker = ''SEMR'', company = ''Semrush Holdings, Inc.'', exchange = ''NYSE'', ipo_date = Some (today - 320)\<rparr>,
      \<lparr>ticker = ''NUVL'', company = ''Nuvalent, Inc.'', exchange = ''NASDAQ'', ipo_date = Some (today - 280)\<rparr>]"

text \<open>
  \<^verbatim>\<open>df.sort_values("ipo_date")\<close>: pandas sorts the rows that have a date in ascending
  order and puts the rows with a missing date last (\<^verbatim>\<open>na_position="last"\<close>), in
  their original order. Rows with equal dates are kept here in their original order;
  nothing below depends on how ties are ordered.
  \<^verbatim>\<open>drop_duplicates(subset=["ticker"], keep="last")\<close> keeps, for each ticker, the last
  row that has it.
\<close>

definition sort_values_ipo_date :: "ipo list \<Rightarrow> ipo list" where
  "sort_values_ipo_date df =
     sort_key (\<lambda>r. the (ipo_date r)) (filter (\<lambda>r. ipo_date r \<noteq> None) df)
     @ filter (\<lambda>r. ipo_date r = None) df"

fun drop_duplicates_last :: "ipo list \<Rightarrow> ipo list" where
  "drop_duplicates_last [] = []"
| "drop_duplicates_last (r # rs) =
     (if ticker r \<in> set (map ticker rs) then drop_duplicates_last rs
      else r # drop_duplicates_last rs)"

text \<open>
  \<^verbatim>\<open>get_recent_ipos\<close>. The calendar is what the Finnhub client returned for the
  look-back window; \<open>None\<close> stands for "no API key", "no client library" and "the
  request failed", which all leave the record list empty and select the demo list.
\<close>

definition get_recent_ipos :: "int \<Rightarrow> calendar_row list option \<Rightarrow> ipo list" where
  "get_recent_ipos today ipo_calendar =
     (let records = (case ipo_calendar of
                       None \<Rightarrow> []
                     | Some calendar \<Rightarrow>
                         (case collect_records calendar of None \<Rightarrow> [] | Some rs \<Rightarrow> rs));
          records = (if records = [] then demo_data today else records)
      in if records \<noteq> [] then drop_duplicates_last (sort_values_ipo_date records) else records)"

subsection \<open>One record per ticker\<close>

lemma drop_duplicates_last_subset: "set (drop_duplicates_last rs) \<subseteq> set rs"
  by (induction rs) auto

lemma drop_duplicates_last_distinct: "distinct (map ticker (drop_duplicates_last rs))"
proof (induction rs)
  case Nil
  then show ?case by simp
next
  case (Cons r rs)
  have "ticker ` set (drop_duplicates_last rs) \<subseteq> ticker ` set rs"
    using drop_duplicates_last_subset [of rs] by blast
  with Cons show ?case by auto
qed

lemma drop_duplicates_last_tickers:
  "ticker ` set (drop_duplicates_last rs) = ticker ` set rs"
  by (induction rs) auto

lemma get_recent_ipos_distinct: "distinct (map ticker (get_recent_ipos today ipo_calendar))"
  by (simp add: get_recent_ipos_def Let_def drop_duplicates_last_distinct)

text \<open>
  When every duplicate carries a date, the record that is kept has the latest date of
  its ticker.
\<close>

lemma drop_duplicates_last_split:
  "r \<in> set (drop_duplicates_last rs) \<Longrightarrow>
     \<exists>ys zs. rs = ys @ r # zs \<and> ticker r \<notin> ticker ` set zs"
proof (induction rs)
  case Nil
  then show ?case by simp
next
  case (Cons x xs)
  show ?case
  proof (cases "r \<in> set (drop_duplicates_last xs)")
    case True
    from Cons.IH [OF this] obtain ys zs where "xs = ys @ r # zs" "ticker r \<notin> ticker ` set zs"
      by blast
    then have "x # xs = (x # ys) @ r # zs \<and> ticker r \<notin> ticker ` set zs" by simp
    then show ?thesis by blast
  next
    case False
    with Cons.prems have "r = x" "ticker x \<notin> ticker ` set xs"
      by (auto split: if_splits)
    then have "x # xs = [] @ r # xs \<and> ticker r \<notin> ticker ` set xs" by simp
    then show ?thesis by blast
  qed
qed

lemma most_recent_kept_when_dated:
  assumes "\<forall>r\<in>set records. ipo_date r \<noteq> None"
    and "r \<in> set (drop_duplicates_last (sort_values_ipo_date records))"
    and "r' \<in> set records" and "ticker r' = ticker r"
  shows "the (ipo_date r') \<le> the (ipo_date r)"
proof -
  let ?k = "\<lambda>r. the (ipo_date r)"
  have dated: "filter (\<lambda>r. ipo_date r \<noteq> None) records = records"
    using assms(1) by (simp add: filter_id_conv)
  have undated: "filter (\<lambda>r. ipo_date r = None) records = []"
    using assms(1) by (simp add: filter_empty_conv)
  have s: "sort_values_ipo_date records = sort_key ?k records"
    unfolding sort_values_ipo_date_def dated undated by simp
  from drop_duplicates_last_split [OF assms(2)] obtain ys zs where
    split: "sort_key ?k records = ys @ r # zs" and last: "ticker r \<notin> ticker ` set zs"
    unfolding s by blast
  have "sorted (map ?k (ys @ r # zs))"
    using sorted_sort_key [of ?k records] by (simp add: split)
  then have le: "\<forall>y\<in>set ys. ?k y \<le> ?k r"
    by (auto simp: sorted_append)
  have "r' \<in> set (ys @ r # zs)"
    using assms(3) by (simp add: split [symmetric])
  moreover have "r' \<notin> set zs" using last assms(4) by (metis imageI)
  ultimately have "r' \<in> set ys \<or> r' = r" by auto
  with le show ?thesis by auto
qed

text \<open>
  C10. The table has one record per ticker (\<open>get_recent_ipos_distinct\<close>), and among
  dated duplicates the most recent is kept (\<open>most_recent_kept_when_dated\<close>), as the
  comment in the code says ("keep the most recent IPO date if any"). A duplicate
  without a date is sorted last, however, and \<^verbatim>\<open>keep="last"\<close> then keeps it in
  place of the dated record.
\<close>

theorem undated_duplicate_kept:
  "get_recent_ipos 1000 (Some
     [\<lparr>row_symbol = Some ''ABC'', row_name = Some ''Abc Inc'', row_exchange = Some ''NYSE'', row_date = Day 900\<rparr>,
      \<lparr>row_symbol = Some ''ABC'', row_name = Some ''Abc Inc'', row_exchange = Some ''NYSE'', row_date = NoDate\<rparr>])
   = [\<lparr>ticker = ''ABC'', company = ''Abc Inc'', exchange = ''NYSE'', ipo_date = None\<rparr>]"
  by code_simp

section \<open>Screener rows (\<^verbatim>\<open>app.py\<close>)\<close>

text \<open>
  One row of the screener table. The two columns per window
  (\<^verbatim>\<open>Price vs SMA w %\<close> and \<^verbatim>\<open>Price vs SMA w status\<close>) are kept together, keyed
  by the window. Sector and market capitalisation come from the info source, which is a
  parameter here: a function from the ticker to that pair.
\<close>

record screener_row =
  Ticker :: string
  Company :: string
  IPO_Date :: "int option"
  Days_Since_IPO :: "int option"
  Sector :: string
  Exchange :: string
  Current_Price :: "pyfloat option"
  Change_pct :: "pyfloat option"
  Volume :: "pyfloat option"
  Market_Cap :: pyval
  Price_vs_SMA :: "(int \<times> pyfloat option \<times> string) list"

definition ma_options :: "int list" where
  "ma_options = [10, 20, 50, 100, 200]"

definition requested_windows :: "int list \<Rightarrow> int list" where
  "requested_windows selected_mas = (if selected_mas = [] then ma_options else selected_mas)"

text \<open>
  \<^verbatim>\<open>(last_close / sma_scalar - 1.0) * 100.0\<close>, computed when both are present.
  Unlike the change since the first close, this division has no guard against zero.
\<close>

definition price_vs_sma :: "pyfloat option \<Rightarrow> pyfloat option \<Rightarrow> error + pyfloat option" where
  "price_vs_sma sma_scalar last_close =
     (case (sma_scalar, last_close) of
        (Some s, Some l) \<Rightarrow>
          (case float_div l s of
             Inl e \<Rightarrow> Inl e
           | Inr q \<Rightarrow> Inr (Some (float_mul (float_sub q (Fin 1)) (Fin 100))))
      | _ \<Rightarrow> Inr None)"

fun ma_cells ::
  "row \<Rightarrow> pyfloat option \<Rightarrow> (int \<times> string) list \<Rightarrow> (int \<times> pyfloat option \<times> string) list
     \<Rightarrow> int list \<Rightarrow> error + (int \<times> pyfloat option \<times> string) list" where
  "ma_cells latest last_close signals cells [] = Inr cells"
| "ma_cells latest last_close signals cells (window # windows) =
     (case to_scalar (row_get latest (sma_col window)) of
        Inl e \<Rightarrow> Inl e
      | Inr sma_scalar \<Rightarrow>
          (case price_vs_sma sma_scalar last_close of
             Inl e \<Rightarrow> Inl e
           | Inr vs_pct \<Rightarrow>
               ma_cells latest last_close signals
                 (AList.update window
                    (vs_pct, case map_of signals window of None \<Rightarrow> ''n/a'' | Some s \<Rightarrow> s)
                    cells)
                 windows))"

text \<open>\<^verbatim>\<open>float(v) if v is not None else None\<close>\<close>

definition optional_float :: "pyval \<Rightarrow> error + pyfloat option" where
  "optional_float v = (if v = PyNone then Inr None
                       else case py_float v of Inl e \<Rightarrow> Inl e | Inr f \<Rightarrow> Inr (Some f))"

text \<open>
  \<^verbatim>\<open>(today - ipo_date).days if isinstance(ipo_date, dt.date) else None\<close>. A missing
  date is \<^verbatim>\<open>pd.NaT\<close> in the table, and \<^verbatim>\<open>NaT\<close> is an instance of
  \<^verbatim>\<open>datetime\<close>, hence of \<^verbatim>\<open>dt.date\<close>: the test lets it through, and
  \<^verbatim>\<open>today - NaT\<close> raises \<^verbatim>\<open>TypeError\<close>. The \<^verbatim>\<open>else\<close> branch is for
  a value that is no date at all, which the IPO table never holds.
\<close>

fun days_since_ipo :: "int \<Rightarrow> int option \<Rightarrow> error + int option" where
  "days_since_ipo today None = Inl TypeError"
| "days_since_ipo today (Some d) = Inr (Some (today - d))"

text \<open>
  The body of the loop over the tickers, from the call of
  \<^verbatim>\<open>calculate_moving_averages\<close> to the finished row, in the order of the source.
  \<^verbatim>\<open>price_df["Close"]\<close> raises \<^verbatim>\<open>KeyError\<close> for a frame without that column.
\<close>

definition screener_row_of ::
  "int \<Rightarrow> ipo list \<Rightarrow> (string \<Rightarrow> string \<times> pyval) \<Rightarrow> int list \<Rightarrow> string \<Rightarrow> dataframe
     \<Rightarrow> error + screener_row" where
  "screener_row_of today ipos_df load_stock_info windows t price_df0 =
     (case calculate_moving_averages price_df0 windows of
        Inl e \<Rightarrow> Inl e
      | Inr price_df \<Rightarrow>
     (case get_ma_signals price_df windows of
        Inl e \<Rightarrow> Inl e
      | Inr (signals, latest) \<Rightarrow>
     (case df_get price_df ''Close'' of
        None \<Rightarrow> Inl KeyError
      | Some [] \<Rightarrow> Inl IndexError
      | Some (c0 # _) \<Rightarrow>
     (case to_scalar c0 of
        Inl e \<Rightarrow> Inl e
      | Inr first_close \<Rightarrow>
     (case to_scalar (row_get latest ''Close'') of
        Inl e \<Rightarrow> Inl e
      | Inr last_close \<Rightarrow>
     (case filter (\<lambda>r. ticker r = t) ipos_df of
        [] \<Rightarrow> Inl IndexError
      | r # rs \<Rightarrow>
     (let base_row = last (r # rs) in
     (case days_since_ipo today (ipo_date base_row) of
        Inl e \<Rightarrow> Inl e
      | Inr days \<Rightarrow>
     (let (sector, market_cap) = load_stock_info t in
     (case change_pct first_close last_close of
        Inl e \<Rightarrow> Inl e
      | Inr change \<Rightarrow>
     (case optional_float (row_get latest ''Volume'') of
        Inl e \<Rightarrow> Inl e
      | Inr volume \<Rightarrow>
     (case ma_cells latest last_close signals [] windows of
        Inl e \<Rightarrow> Inl e
      | Inr cells \<Rightarrow>
          Inr \<lparr>Ticker = t,
               Company = company base_row,
               IPO_Date = ipo_date base_row,
               Days_Since_IPO = days,
               Sector = sector,
               Exchange = exchange base_row,
               Current_Price = last_close,
               Change_pct = change,
               Volume = volume,
               Market_Cap = market_cap,
               Price_vs_SMA = cells\<rparr>))))))))))))"

text \<open>
  The loop itself: a ticker whose price frame is empty is skipped by \<^verbatim>\<open>continue\<close>;
  an exception in the body ends the run.
\<close>

fun screener_loop ::
  "int \<Rightarrow> ipo list \<Rightarrow> (string \<Rightarrow> dataframe) \<Rightarrow> (string \<Rightarrow> string \<times> pyval) \<Rightarrow> int list
     \<Rightarrow> screener_row list \<Rightarrow> string list \<Rightarrow> error + screener_row list" where
  "screener_loop today ipos_df load_price_data load_stock_info windows rows [] = Inr rows"
| "screener_loop today ipos_df load_price_data load_stock_info windows rows (t # tickers) =
     (let price_df = load_price_data t in
      if df_empty price_df
      then screener_loop today ipos_df load_price_data load_stock_info windows rows tickers
      else
        (case screener_row_of today ipos_df load_stock_info windows t price_df of
           Inl e \<Rightarrow> Inl e
         | Inr row \<Rightarrow>
             screener_loop today ipos_df load_price_data load_stock_info windows
               (rows @ [row]) tickers))"

definition screener_rows ::
  "int \<Rightarrow> ipo list \<Rightarrow> (string \<Rightarrow> dataframe) \<Rightarrow> (string \<Rightarrow> string \<times> pyval) \<Rightarrow> int list
     \<Rightarrow> error + screener_row list" where
  "screener_rows today ipos_df load_price_data load_stock_info selected_mas =
     (if ipos_df = [] then Inr []
      else screener_loop today ipos_df load_price_data load_stock_info
             (requested_windows selected_mas) [] (sort (remdups (map ticker ipos_df))))"

subsection \<open>Tickers without price data\<close>

lemma screener_row_of_Ticker:
  "screener_row_of today ipos_df info windows t price_df = Inr row \<Longrightarrow> Ticker row = t"
  by (auto simp: screener_row_of_def Let_def split: sum.splits option.splits list.splits prod.splits)

lemma screener_loop_skips_empty:
  "screener_loop today ipos_df prices info windows rows tickers
     = screener_loop today ipos_df prices info windows rows
         (filter (\<lambda>t. \<not> df_empty (prices t)) tickers)"
  by (induction tickers arbitrary: rows) (simp_all add: Let_def split: sum.splits)

lemma screener_loop_tickers:
  "screener_loop today ipos_df prices info windows rows tickers = Inr rows'
   \<Longrightarrow> \<exists>new. rows' = rows @ new
        \<and> map Ticker new = filter (\<lambda>t. \<not> df_empty (prices t)) tickers"
proof (induction tickers arbitrary: rows)
  case Nil
  then show ?case by simp
next
  case (Cons t ts)
  show ?case
  proof (cases "df_empty (prices t)")
    case True
    with Cons.prems have "screener_loop today ipos_df prices info windows rows ts = Inr rows'"
      by simp
    from Cons.IH [OF this] True show ?thesis by simp
  next
    case False
    with Cons.prems obtain row where
      row: "screener_row_of today ipos_df info windows t (prices t) = Inr row" and
      rest: "screener_loop today ipos_df prices info windows (rows @ [row]) ts = Inr rows'"
      by (auto simp: Let_def split: sum.splits)
    from Cons.IH [OF rest] obtain new where
      new: "rows' = (rows @ [row]) @ new"
        "map Ticker new = filter (\<lambda>t. \<not> df_empty (prices t)) ts"
      by blast
    have "Ticker row = t" using row by (rule screener_row_of_Ticker)
    with new False have "rows' = rows @ (row # new)
        \<and> map Ticker (row # new) = filter (\<lambda>t. \<not> df_empty (prices t)) (t # ts)"
      by simp
    then show ?thesis by blast
  qed
qed

subsection \<open>Price frames on which a row is always produced\<close>

text \<open>
  A frame of ordinary price data: well-formed, not empty, with a Close column of
  positive numbers (or \<^verbatim>\<open>nan\<close>) and, if it has a Volume column, numbers (or
  \<^verbatim>\<open>nan\<close>) in it. On such a frame nothing in the loop body raises.
\<close>

fun price_cell :: "pyval \<Rightarrow> bool" where
  "price_cell (Num r) = (0 < r)"
| "price_cell NaN = True"
| "price_cell _ = False"

fun number_cell :: "pyval \<Rightarrow> bool" where
  "number_cell (Num r) = True"
| "number_cell NaN = True"
| "number_cell _ = False"

definition clean_prices :: "dataframe \<Rightarrow> bool" where
  "clean_prices df \<longleftrightarrow>
     wf_df df \<and> \<not> df_empty df
     \<and> (case df_get df ''Close'' of None \<Rightarrow> False | Some col \<Rightarrow> list_all price_cell col)
     \<and> (case df_get df ''Volume'' of None \<Rightarrow> True | Some col \<Rightarrow> list_all number_cell col)"

lemma price_cell_cases: "price_cell v \<Longrightarrow> (\<exists>r. v = Num r \<and> 0 < r) \<or> v = NaN"
  by (cases v) simp_all

lemma number_cell_cases: "number_cell v \<Longrightarrow> (\<exists>r. v = Num r) \<or> v = NaN"
  by (cases v) simp_all

lemma to_scalar_NaN: "to_scalar NaN = Inr None" "to_scalar PdNA = Inr None" "to_scalar PyNone = Inr None"
  by (simp_all add: to_scalar_missing)

lemma prep_values_prices:
  "list_all price_cell col \<Longrightarrow>
     \<exists>closes. prep_values col = Inr closes \<and> (\<forall>x\<in>set closes. \<forall>r. x = Some r \<longrightarrow> 0 < r)"
proof (induction col)
  case Nil
  then show ?case by simp
next
  case (Cons v vs)
  then obtain closes where c: "prep_values vs = Inr closes" "\<forall>x\<in>set closes. \<forall>r. x = Some r \<longrightarrow> 0 < r"
    by auto
  from Cons.prems have "price_cell v" by simp
  then show ?case using c by (auto dest!: price_cell_cases)
qed

lemma change_pct_total: "\<exists>r. change_pct a b = Inr r"
proof (cases a)
  case None
  then show ?thesis by (simp add: change_pct_def)
next
  case (Some f)
  show ?thesis
  proof (cases b)
    case None
    with Some show ?thesis by (simp add: change_pct_def)
  next
    case (Some l)
    with \<open>a = Some f\<close> show ?thesis
      by (cases f; cases l) (simp_all add: change_pct_def)
  qed
qed

lemma price_vs_sma_total: "s \<noteq> Some (Fin 0) \<Longrightarrow> \<exists>r. price_vs_sma s l = Inr r"
proof (cases s)
  case None
  then show ?thesis by (simp add: price_vs_sma_def)
next
  case (Some f)
  assume nz: "s \<noteq> Some (Fin 0)"
  show ?thesis
  proof (cases l)
    case None
    with Some show ?thesis by (simp add: price_vs_sma_def)
  next
    case (Some x)
    with \<open>s = Some f\<close> nz show ?thesis
      by (cases f; cases x) (simp_all add: price_vs_sma_def)
  qed
qed

lemma ma_cells_total:
  "\<forall>w\<in>set windows. \<exists>s. to_scalar (row_get latest (sma_col w)) = Inr s \<and> s \<noteq> Some (Fin 0)
   \<Longrightarrow> \<exists>cells. ma_cells latest last_close signals acc windows = Inr cells"
proof (induction windows arbitrary: acc)
  case Nil
  then show ?case by simp
next
  case (Cons w ws)
  from Cons.prems obtain s where s: "to_scalar (row_get latest (sma_col w)) = Inr s" "s \<noteq> Some (Fin 0)"
    by auto
  from price_vs_sma_total [OF s(2)] obtain r where r: "price_vs_sma s last_close = Inr r"
    by blast
  from Cons.prems have "\<forall>w\<in>set ws. \<exists>s. to_scalar (row_get latest (sma_col w)) = Inr s \<and> s \<noteq> Some (Fin 0)"
    by simp
  from Cons.IH [OF this] s(1) r show ?case by simp
qed

lemma row_get_iloc_last:
  "row_get (iloc_last df) c = (case df_get df c of None \<Rightarrow> PyNone | Some xs \<Rightarrow> last xs)"
proof -
  have "map_of (map (\<lambda>(c, xs). (c, last xs)) al) c = map_option last (map_of al c)" for al :: "(string \<times> pyval list) list"
    by (induction al) auto
  then show ?thesis
    by (simp add: row_get_def iloc_last_def df_get_def split: option.splits)
qed

lemma sma_col_not_Close: "sma_col w \<noteq> ''Close''" "sma_col w \<noteq> ''Volume''"
  by (simp_all add: sma_col_def)

lemma roll_mean_last_positive:
  assumes "\<forall>x\<in>set closes. \<forall>r. x = Some r \<longrightarrow> 0 < r" and "0 < W" and "i < length closes"
  shows "roll_mean W W closes ! i = None \<or> (\<exists>m. roll_mean W W closes ! i = Some m \<and> 0 < m)"
proof (cases "W \<le> Suc i \<and> (\<forall>j\<in>{Suc i - W..i}. closes ! j \<noteq> None)")
  case True
  have "0 < (\<Sum>j = Suc i - W..i. the (closes ! j))"
  proof (rule sum_pos)
    show "finite {Suc i - W..i}" by simp
    show "{Suc i - W..i} \<noteq> {}" using assms(2) by simp
    fix j assume j: "j \<in> {Suc i - W..i}"
    with True have "closes ! j \<noteq> None" by blast
    then obtain r where r: "closes ! j = Some r" by (cases "closes ! j") simp_all
    from j assms(3) have "closes ! j \<in> set closes" by simp
    with assms(1) r show "0 < the (closes ! j)" by simp
  qed
  with True assms(2) show ?thesis
    by (simp add: roll_mean_nth [OF assms(3) assms(2)])
next
  case False
  have "roll_mean W W closes ! i = None"
    unfolding roll_mean_nth [OF assms(3) assms(2)] by (rule if_not_P) (rule False)
  then show ?thesis by simp
qed

lemma sma_values_last:
  assumes "prep_values col = Inr closes"
    and "\<forall>x\<in>set closes. \<forall>r. x = Some r \<longrightarrow> 0 < r"
    and "0 < w" and "0 < length col"
    and "sma_values (length col) col w = Inr xs"
  shows "\<exists>s. to_scalar (last xs) = Inr s \<and> s \<noteq> Some (Fin 0)"
proof (cases "w \<le> int (length col)")
  case True
  have len: "length closes = length col" using assms(1) by (rule prep_values_length)
  from True assms(1,5) have xs: "xs = map float_cell (roll_mean (nat w) (nat w) closes)"
    by (simp add: sma_values_def rolling_mean_def)
  then have "xs \<noteq> []" using assms(4) len by (auto simp: roll_mean_def)
  then have "last xs = float_cell (roll_mean (nat w) (nat w) closes ! (length col - 1))"
    unfolding xs using assms(4) by (simp add: last_conv_nth roll_mean_length len)
  moreover have "roll_mean (nat w) (nat w) closes ! (length col - 1) = None
      \<or> (\<exists>m. roll_mean (nat w) (nat w) closes ! (length col - 1) = Some m \<and> 0 < m)"
    using assms(2,3,4) len by (intro roll_mean_last_positive) simp_all
  ultimately show ?thesis
    by (auto simp: to_scalar_NaN to_scalar_Num)
next
  case False
  with assms(5) have "xs = replicate (length col) PdNA" by (simp add: sma_values_def)
  with assms(4) have "last xs = PdNA" by simp
  then show ?thesis by (simp add: to_scalar_NaN)
qed

lemma price_cell_to_scalar: "price_cell v \<Longrightarrow> \<exists>c. to_scalar v = Inr c"
  by (auto dest!: price_cell_cases simp: to_scalar_Num to_scalar_NaN)

lemma number_cell_optional_float: "number_cell v \<Longrightarrow> \<exists>f. optional_float v = Inr f"
  by (auto dest!: number_cell_cases simp: optional_float_def)

lemma screener_row_of_total:
  assumes clean: "clean_prices df"
    and pos: "\<forall>w\<in>set windows. 0 < w"
    and listed: "t \<in> ticker ` set ipos_df"
    and dated: "\<forall>r\<in>set ipos_df. ticker r = t \<longrightarrow> ipo_date r \<noteq> None"
  shows "\<exists>row. screener_row_of today ipos_df info windows t df = Inr row"
proof -
  from clean have wf: "wf_df df" and ne: "\<not> df_empty df"
    by (simp_all add: clean_prices_def)
  from clean obtain col where col: "df_get df ''Close'' = Some col" and cells: "list_all price_cell col"
    by (auto simp: clean_prices_def split: option.splits)
  from clean have vol: "\<And>vcol. df_get df ''Volume'' = Some vcol \<Longrightarrow> list_all number_cell vcol"
    by (auto simp: clean_prices_def split: option.splits)
  have n: "length col = nrows df" using wf col by (rule wf_df_column)
  have npos: "0 < nrows df" using ne by (simp add: df_empty_def)
  from prep_values_prices [OF cells] obtain closes where
    closes: "prep_values col = Inr closes" "\<forall>x\<in>set closes. \<forall>r. x = Some r \<longrightarrow> 0 < r"
    by blast
  \<comment> \<open>the moving averages\<close>
  have run: "calculate_moving_averages df windows = sma_loop col df windows"
    using ne col by (rule calculate_moving_averages_loop)
  from sma_loop_success [OF closes(1)] obtain df' where df': "sma_loop col df windows = Inr df'"
    by blast
  have n': "nrows df' = nrows df" using df' by (rule sma_loop_nrows)
  have close': "df_get df' ''Close'' = Some col"
    using sma_loop_other [OF df', of "''Close''"] col sma_col_not_Close(1) by metis
  have volume': "df_get df' ''Volume'' = df_get df ''Volume''"
    using sma_loop_other [OF df', of "''Volume''"] sma_col_not_Close(2) by metis
  have ne': "\<not> df_empty df'"
    using n' npos close' by (auto simp: df_empty_def dest: df_get_not_empty)
  \<comment> \<open>the latest row\<close>
  let ?latest = "iloc_last df'"
  have col_ne: "col \<noteq> []" using n npos by auto
  have latest_close: "row_get ?latest ''Close'' = last col"
    by (simp add: row_get_iloc_last close')
  have "price_cell (last col)"
    using cells col_ne by (simp add: list_all_iff)
  from price_cell_to_scalar [OF this] obtain last_close where
    last_close: "to_scalar (row_get ?latest ''Close'') = Inr last_close"
    unfolding latest_close by blast
  have sma: "\<exists>s. to_scalar (row_get ?latest (sma_col w)) = Inr s \<and> s \<noteq> Some (Fin 0)"
    if w: "w \<in> set windows" for w
  proof -
    from pos w have "0 < w" by simp
    from sma_loop_column [OF df' w this] obtain xs where
      xs: "sma_values (nrows df) col w = Inr xs" "df_get df' (sma_col w) = Some xs"
      by blast
    have "row_get ?latest (sma_col w) = last xs"
      by (simp add: row_get_iloc_last xs(2))
    moreover have "\<exists>s. to_scalar (last xs) = Inr s \<and> s \<noteq> Some (Fin 0)"
      using closes \<open>0 < w\<close> npos xs(1) unfolding n [symmetric]
      by (intro sma_values_last [of col closes w xs]) simp_all
    ultimately show ?thesis by simp
  qed
  then have "\<forall>v\<in>set windows. \<exists>m. to_scalar (row_get ?latest (sma_col v)) = Inr m"
    by blast
  from signals_loop_result [OF last_close this, of "[]"] obtain signals where
    "signals_loop (row_get ?latest ''Close'') ?latest [] windows = Inr signals"
    by blast
  then have signals: "get_ma_signals df' windows = Inr (signals, ?latest)"
    using ne' by (simp add: get_ma_signals_def)
  \<comment> \<open>the first close\<close>
  from col_ne obtain c0 rest where c0: "col = c0 # rest" by (cases col) auto
  with cells have "price_cell c0" by simp
  from price_cell_to_scalar [OF this] obtain first_close where
    first_close: "to_scalar c0 = Inr first_close"
    by blast
  \<comment> \<open>the remaining cells of the row\<close>
  from listed have "filter (\<lambda>r. ticker r = t) ipos_df \<noteq> []"
    by (auto simp: filter_empty_conv)
  then obtain r rs where base: "filter (\<lambda>r. ticker r = t) ipos_df = r # rs"
    by (cases "filter (\<lambda>r. ticker r = t) ipos_df") auto
  have "last (r # rs) \<in> set (filter (\<lambda>r. ticker r = t) ipos_df)"
    unfolding base by (rule last_in_set) simp
  with dated have "ipo_date (last (r # rs)) \<noteq> None"
    by simp
  then obtain days where days: "days_since_ipo today (ipo_date (last (r # rs))) = Inr days"
    by (cases "ipo_date (last (r # rs))") auto
  from change_pct_total obtain change where change: "change_pct first_close last_close = Inr change"
    by blast
  have "\<exists>f. optional_float (row_get ?latest ''Volume'') = Inr f"
  proof (cases "df_get df ''Volume''")
    case None
    then show ?thesis by (simp add: row_get_iloc_last volume' optional_float_def)
  next
    case (Some vcol)
    from wf Some have "length vcol = nrows df" by (rule wf_df_column)
    with npos have "vcol \<noteq> []" by auto
    with vol [OF Some] have "number_cell (last vcol)" by (simp add: list_all_iff)
    from number_cell_optional_float [OF this] Some show ?thesis
      by (simp add: row_get_iloc_last volume')
  qed
  then obtain volume where volume: "optional_float (row_get ?latest ''Volume'') = Inr volume"
    by blast
  from sma have "\<forall>w\<in>set windows. \<exists>s. to_scalar (row_get ?latest (sma_col w)) = Inr s \<and> s \<noteq> Some (Fin 0)"
    by blast
  from ma_cells_total [OF this] obtain cells where
    ma: "ma_cells ?latest last_close signals [] windows = Inr cells"
    by blast
  have close_cells: "df_get df' ''Close'' = Some (c0 # rest)"
    using close' c0 by simp
  show ?thesis
    unfolding screener_row_of_def
    by (simp add: Let_def run df' signals close_cells first_close last_close base days change
        volume ma del: last.simps split: prod.splits)
qed

lemma screener_loop_total:
  assumes "\<forall>t\<in>set tickers. \<not> df_empty (prices t) \<longrightarrow>
             clean_prices (prices t) \<and> t \<in> ticker ` set ipos_df
             \<and> (\<forall>r\<in>set ipos_df. ticker r = t \<longrightarrow> ipo_date r \<noteq> None)"
    and "\<forall>w\<in>set windows. 0 < w"
  shows "\<exists>rows'. screener_loop today ipos_df prices info windows rows tickers = Inr rows'"
  using assms(1)
proof (induction tickers arbitrary: rows)
  case Nil
  then show ?case by simp
next
  case (Cons t ts)
  from Cons.prems have rest: "\<forall>t\<in>set ts. \<not> df_empty (prices t) \<longrightarrow>
             clean_prices (prices t) \<and> t \<in> ticker ` set ipos_df
             \<and> (\<forall>r\<in>set ipos_df. ticker r = t \<longrightarrow> ipo_date r \<noteq> None)"
    by simp
  show ?case
  proof (cases "df_empty (prices t)")
    case True
    with Cons.IH [OF rest] show ?thesis by simp
  next
    case False
    with Cons.prems have "clean_prices (prices t)" "t \<in> ticker ` set ipos_df"
      "\<forall>r\<in>set ipos_df. ticker r = t \<longrightarrow> ipo_date r \<noteq> None"
      by simp_all
    from screener_row_of_total [OF this(1) assms(2) this(2,3)] obtain row where
      "screener_row_of today ipos_df info windows t (prices t) = Inr row"
      by blast
    with False Cons.IH [OF rest] show ?thesis by simp
  qed
qed

text \<open>
  A ticker with price data whose IPO record has no date does end the run: the
  subtraction of \<^verbatim>\<open>NaT\<close> raises.
\<close>

lemma undated_record_ends_run:
  "screener_loop 1000
     [\<lparr>ticker = ''ARM'', company = ''Arm Holdings plc'', exchange = ''NASDAQ'', ipo_date = None\<rparr>]
     (\<lambda>t. \<lparr>nrows = 2, columns = [(''Close'', [Num 50, Num 75])]\<rparr>)
     (\<lambda>t. ([], PyNone)) [2] [] [''ARM''] = Inl TypeError"
  by code_simp

text \<open>
  C6. A ticker whose price fetch is empty neither adds a row nor ends the run: the loop
  behaves exactly as on the tickers that have price data, and when it returns, the rows
  are those tickers' rows, in order. So with three tickers of which exactly one has no
  price data the table has exactly two rows. The loop does return when the tickers that
  have data come from the IPO table, with a date on each of their records, and have
  ordinary price frames, and the windows are positive.
\<close>

theorem empty_price_data_skipped:
  "screener_loop today ipos_df prices info windows [] tickers
     = screener_loop today ipos_df prices info windows []
         (filter (\<lambda>t. \<not> df_empty (prices t)) tickers)
   \<and> (screener_loop today ipos_df prices info windows [] tickers = Inr rows \<longrightarrow>
        map Ticker rows = filter (\<lambda>t. \<not> df_empty (prices t)) tickers
        \<and> (length tickers = 3 \<and> length (filter (\<lambda>t. df_empty (prices t)) tickers) = 1
             \<longrightarrow> length rows = 2))
   \<and> ((\<forall>t\<in>set tickers. \<not> df_empty (prices t) \<longrightarrow>
           clean_prices (prices t) \<and> t \<in> ticker ` set ipos_df
           \<and> (\<forall>r\<in>set ipos_df. ticker r = t \<longrightarrow> ipo_date r \<noteq> None))
        \<and> (\<forall>w\<in>set windows. 0 < w)
        \<longrightarrow> (\<exists>rows'. screener_loop today ipos_df prices info windows [] tickers = Inr rows'))"
proof (intro conjI impI)
  show "screener_loop today ipos_df prices info windows [] tickers
     = screener_loop today ipos_df prices info windows []
         (filter (\<lambda>t. \<not> df_empty (prices t)) tickers)"
    by (rule screener_loop_skips_empty)
next
  assume "screener_loop today ipos_df prices info windows [] tickers = Inr rows"
  from screener_loop_tickers [OF this]
  show m: "map Ticker rows = filter (\<lambda>t. \<not> df_empty (prices t)) tickers"
    by simp
  assume "length tickers = 3 \<and> length (filter (\<lambda>t. df_empty (prices t)) tickers) = 1"
  moreover have "length (filter (\<lambda>t. df_empty (prices t)) tickers)
      + length (filter (\<lambda>t. \<not> df_empty (prices t)) tickers) = length tickers"
    by (rule sum_length_filter_compl)
  moreover have "length rows = length (filter (\<lambda>t. \<not> df_empty (prices t)) tickers)"
    using m by (metis length_map)
  ultimately show "length rows = 2" by simp
next
  assume "(\<forall>t\<in>set tickers. \<not> df_empty (prices t) \<longrightarrow>
           clean_prices (prices t) \<and> t \<in> ticker ` set ipos_df
           \<and> (\<forall>r\<in>set ipos_df. ticker r = t \<longrightarrow> ipo_date r \<noteq> None))
        \<and> (\<forall>w\<in>set windows. 0 < w)"
  then show "\<exists>rows'. screener_loop today ipos_df prices info windows [] tickers = Inr rows'"
    by (intro screener_loop_total) simp_all
qed

theorem empty_price_data_skipped_witness:
  "\<exists>rows. screener_loop 1000 (demo_data 1000)
       (\<lambda>t. if t = ''KVYO'' then \<lparr>nrows = 0, columns = []\<rparr>
            else \<lparr>nrows = 2, columns = [(''Close'', [Num 50, Num 75])]\<rparr>)
       (\<lambda>t. ([], PyNone)) [2] [] [''ARM'', ''CART'', ''KVYO''] = Inr rows
     \<and> map Ticker rows = [''ARM'', ''CART''] \<and> length rows = 2"
proof -
  let ?prices = "\<lambda>t. if t = ''KVYO'' then \<lparr>nrows = 0, columns = []\<rparr>
            else \<lparr>nrows = 2, columns = [(''Close'', [Num 50, Num 75])]\<rparr>"
  let ?rows = "[\<lparr>Ticker = ''ARM'', Company = ''Arm Holdings plc'',
         IPO_Date = Some 840, Days_Since_IPO = Some 160, Sector = [],
         Exchange = ''NASDAQ'', Current_Price = Some (Fin 75),
         Change_pct = Some (Fin 50), Volume = None, Market_Cap = PyNone,
         Price_vs_SMA = [(2, Some (Fin 20), ''above'')]\<rparr>,
      \<lparr>Ticker = ''CART'', Company = ''Maplebear Inc. (Instacart)'',
         IPO_Date = Some 865, Days_Since_IPO = Some 135, Sector = [],
         Exchange = ''NASDAQ'', Current_Price = Some (Fin 75),
         Change_pct = Some (Fin 50), Volume = None, Market_Cap = PyNone,
         Price_vs_SMA = [(2, Some (Fin 20), ''above'')]\<rparr>]"
  have r: "screener_loop 1000 (demo_data 1000) ?prices (\<lambda>t. ([], PyNone)) [2] []
       [''ARM'', ''CART'', ''KVYO''] = Inr ?rows"
    by code_simp
  have e: "filter (\<lambda>t. df_empty (?prices t)) [''ARM'', ''CART'', ''KVYO''] = [''KVYO'']"
    "filter (\<lambda>t. \<not> df_empty (?prices t)) [''ARM'', ''CART'', ''KVYO''] = [''ARM'', ''CART'']"
    by (simp_all add: df_empty_def)
  note claim = empty_price_data_skipped [of 1000 "demo_data 1000" ?prices "\<lambda>t. ([], PyNone)" "[2]"
      "[''ARM'', ''CART'', ''KVYO'']" ?rows]
  note rows_facts = mp [OF conjunct1 [OF conjunct2 [OF claim]] r]
  note a = conjunct1 [OF rows_facts]
  have three: "length [''ARM'', ''CART'', ''KVYO''] = 3
        \<and> length (filter (\<lambda>t. df_empty (?prices t)) [''ARM'', ''CART'', ''KVYO'']) = 1"
    unfolding e by simp
  note len = mp [OF conjunct2 [OF rows_facts] three]
  from a have tick: "map Ticker ?rows = [''ARM'', ''CART'']" unfolding e .
  show ?thesis
    by (rule exI [of _ ?rows]) (intro conjI r tick len)
qed

end
